theory Spec2Isabelle
  imports Main
begin

section \<open>The Go values and library functions the exporter relies on\<close>

subsection \<open>float64\<close>

text \<open>
  Every float64 the exporter computes itself is integer-valued or infinite: durations are
  sums of products of digit strings, the SOA timers are converted from int64. The type
  below holds exactly these values and NaN, with the IEEE-754 binary64 rounding
  (53 significant bits, ties to even, overflow to infinity) written out on integers.
  Negative zero is identified with zero (the two compare equal in Go). A float64 with a
  fractional part has no representation here: the only source of one is
  \<^verbatim>\<open>strconv.ParseFloat\<close> on the data of a record, whose result goes to the channel as it
  is, and no property below depends on it.
\<close>

datatype float64 = Fin int | PosInf | NegInf | NaN

fun bitLen :: "nat \<Rightarrow> nat" where
  "bitLen n = (if n = 0 then 0 else Suc (bitLen (n div 2)))"

declare bitLen.simps [simp del]

definition round53 :: "nat \<Rightarrow> nat" where
  "round53 n =
     (if bitLen n \<le> 53 then n
      else let sh = bitLen n - 53;
               q = n div 2 ^ sh;
               r = n mod 2 ^ sh;
               half = 2 ^ (sh - 1)
           in (if half < r \<or> (r = half \<and> odd q) then q + 1 else q) * 2 ^ sh)"

text \<open>Conversion of an integer to float64, as Go's \<^verbatim>\<open>float64(v)\<close> and every
  arithmetic result on integer-valued operands: round, then overflow to infinity.\<close>

definition f64_of_int :: "int \<Rightarrow> float64" where
  "f64_of_int i =
     (let r = round53 (nat \<bar>i\<bar>)
      in if 2 ^ 1024 \<le> r then (if i < 0 then NegInf else PosInf)
         else Fin (if i < 0 then - int r else int r))"

fun f64_mul :: "float64 \<Rightarrow> float64 \<Rightarrow> float64" where
  "f64_mul (Fin a) (Fin b) = f64_of_int (a * b)"
| "f64_mul NaN _ = NaN"
| "f64_mul _ NaN = NaN"
| "f64_mul PosInf (Fin b) = (if b = 0 then NaN else if b < 0 then NegInf else PosInf)"
| "f64_mul NegInf (Fin b) = (if b = 0 then NaN else if b < 0 then PosInf else NegInf)"
| "f64_mul (Fin a) PosInf = (if a = 0 then NaN else if a < 0 then NegInf else PosInf)"
| "f64_mul (Fin a) NegInf = (if a = 0 then NaN else if a < 0 then PosInf else NegInf)"
| "f64_mul PosInf PosInf = PosInf"
| "f64_mul NegInf NegInf = PosInf"
| "f64_mul PosInf NegInf = NegInf"
| "f64_mul NegInf PosInf = NegInf"

fun f64_add :: "float64 \<Rightarrow> float64 \<Rightarrow> float64" where
  "f64_add (Fin a) (Fin b) = f64_of_int (a + b)"
| "f64_add NaN _ = NaN"
| "f64_add _ NaN = NaN"
| "f64_add PosInf NegInf = NaN"
| "f64_add NegInf PosInf = NaN"
| "f64_add PosInf _ = PosInf"
| "f64_add NegInf _ = NegInf"
| "f64_add _ PosInf = PosInf"
| "f64_add _ NegInf = NegInf"

subsection \<open>Strings\<close>

text \<open>
  A Go string is a sequence of bytes, here a \<^typ>\<open>string\<close>. The functions of the standard
  library that work on Unicode code points have a fast path for strings of ASCII bytes,
  which is written out below; what they do on a string with a byte above 127 (UTF-8
  decoding, the Unicode case and white-space tables) and what \<^verbatim>\<open>strconv.ParseFloat\<close>
  does on anything but a plain string of decimal digits is not part of this repository
  and is taken as a parameter, the record \<open>golib\<close>.
\<close>

record golib =
  toLowerUnicode :: "string \<Rightarrow> string"
  fieldsUnicode :: "string \<Rightarrow> string list"
  parseFloatOther :: "string \<Rightarrow> float64 option"

definition isASCII :: "string \<Rightarrow> bool" where
  "isASCII s = list_all (\<lambda>c. (of_char c :: nat) < 128) s"

definition isDigit :: "char \<Rightarrow> bool" where
  "isDigit c = (48 \<le> (of_char c :: nat) \<and> (of_char c :: nat) \<le> 57)"

definition asciiLower :: "char \<Rightarrow> char" where
  "asciiLower c =
     (if 65 \<le> (of_char c :: nat) \<and> (of_char c :: nat) \<le> 90
      then char_of ((of_char c :: nat) + 32) else c)"

definition ToLower :: "golib \<Rightarrow> string \<Rightarrow> string" where
  "ToLower lib s = (if isASCII s then map asciiLower s else toLowerUnicode lib s)"

text \<open>\<^verbatim>\<open>strings.ReplaceAll(s, old, new)\<close> for a one-byte \<open>old\<close>, the only use the exporter
  makes of it.\<close>

definition ReplaceAll :: "string \<Rightarrow> char \<Rightarrow> string \<Rightarrow> string" where
  "ReplaceAll s old new = concat (map (\<lambda>c. if c = old then new else [c]) s)"

definition HasSuffix :: "string \<Rightarrow> string \<Rightarrow> bool" where
  "HasSuffix s suffix =
     (length suffix \<le> length s \<and> drop (length s - length suffix) s = suffix)"

definition asciiSpace :: "char \<Rightarrow> bool" where
  "asciiSpace c = ((of_char c :: nat) \<in> {9, 10, 11, 12, 13, 32})"

fun fieldsFrom :: "string \<Rightarrow> string \<Rightarrow> string list" where
  "fieldsFrom cur [] = (if cur = [] then [] else [cur])"
| "fieldsFrom cur (c # cs) =
     (if asciiSpace c then (if cur = [] then fieldsFrom [] cs else cur # fieldsFrom [] cs)
      else fieldsFrom (cur @ [c]) cs)"

definition Fields :: "golib \<Rightarrow> string \<Rightarrow> string list" where
  "Fields lib s = (if isASCII s then fieldsFrom [] s else fieldsUnicode lib s)"

subsection \<open>strconv\<close>

definition digitsValue :: "string \<Rightarrow> nat" where
  "digitsValue ds = foldl (\<lambda>a c. 10 * a + ((of_char c :: nat) - 48)) 0 ds"

definition isNumber :: "string \<Rightarrow> bool" where
  "isNumber ds = (ds \<noteq> [] \<and> list_all isDigit ds)"

text \<open>\<^verbatim>\<open>strconv.ParseFloat(s, 64)\<close>; \<open>None\<close> is a non-nil error. A string of decimal
  digits is converted with correct rounding, and is a range error when the rounded value
  overflows.\<close>

definition ParseFloat :: "golib \<Rightarrow> string \<Rightarrow> float64 option" where
  "ParseFloat lib s =
     (if isNumber s
      then (let r = round53 (digitsValue s)
            in if 2 ^ 1024 \<le> r then None else Some (Fin (int r)))
      else parseFloatOther lib s)"

text \<open>\<^verbatim>\<open>strconv.ParseInt(s, 10, 64)\<close>: an optional sign, decimal digits, and the
  int64 range.\<close>

definition ParseInt :: "string \<Rightarrow> int option" where
  "ParseInt s =
     (case s of
        [] \<Rightarrow> None
      | c # r \<Rightarrow>
          (let ds = (if c = CHR ''+'' \<or> c = CHR ''-'' then r else s)
           in if \<not> isNumber ds then None
              else (let v = (if c = CHR ''-'' then - int (digitsValue ds)
                             else int (digitsValue ds))
                    in if v < - (2 ^ 63) \<or> 2 ^ 63 \<le> v then None else Some v)))"

section \<open>Package utils\<close>

text \<open>The source logs through \<^verbatim>\<open>log.Printf\<close> and \<^verbatim>\<open>DebugLog\<close>; log lines are
  not part of any result and are left out of the model.\<close>

definition IsPrefixIn :: "string \<Rightarrow> string list \<Rightarrow> bool" where
  "IsPrefixIn s prefixes =
     list_ex (\<lambda>prefix. length prefix \<le> length s \<and> take (length prefix) s = prefix) prefixes"

text \<open>
  \<^verbatim>\<open>durationRegex = ^([+-])((\d+)D)?((\d+)h)?((\d+)m)?((\d+)s)?$\<close>.
  \<open>unitGroup u s\<close> matches one optional group \<^verbatim>\<open>((\d+)u)?\<close> at the head of \<open>s\<close> and
  gives the outer submatch, the inner submatch and the rest of the input; a group that
  does not take part in the match has empty submatches. The digits of a group are
  followed by one letter, so the group matches exactly when the longest run of digits is
  non-empty and followed by \<open>u\<close>.
\<close>

definition unitGroup :: "char \<Rightarrow> string \<Rightarrow> string \<times> string \<times> string" where
  "unitGroup u s =
     (let ds = takeWhile isDigit s; rest = dropWhile isDigit s
      in if ds \<noteq> [] \<and> rest \<noteq> [] \<and> hd rest = u then (ds @ [u], ds, tl rest)
         else ([], [], s))"

text \<open>\<^verbatim>\<open>durationRegex.FindStringSubmatch\<close>: the empty list when the input does not match,
  else the ten submatches.\<close>

definition FindStringSubmatch :: "string \<Rightarrow> string list" where
  "FindStringSubmatch s =
     (case s of
        [] \<Rightarrow> []
      | c # r0 \<Rightarrow>
          if c = CHR ''+'' \<or> c = CHR ''-'' then
            (case unitGroup CHR ''D'' r0 of (g2, g3, r1) \<Rightarrow>
             case unitGroup CHR ''h'' r1 of (g4, g5, r2) \<Rightarrow>
             case unitGroup CHR ''m'' r2 of (g6, g7, r3) \<Rightarrow>
             case unitGroup CHR ''s'' r3 of (g8, g9, r4) \<Rightarrow>
               if r4 = [] then [s, [c], g2, g3, g4, g5, g6, g7, g8, g9] else [])
          else [])"

text \<open>The blocks of \<^verbatim>\<open>ParseDurationString\<close> for days, hours and minutes are
  \<open>addUnit\<close> with the seconds of the unit: a group that is present and parses adds its
  value times the unit; a parse error is logged and the group adds nothing.
  \<open>addSeconds\<close> is the block for seconds, which adds the value itself.\<close>

definition addUnit :: "golib \<Rightarrow> float64 \<Rightarrow> string \<Rightarrow> int \<Rightarrow> float64" where
  "addUnit lib totalSeconds m unit =
     (if m \<noteq> [] then
        (case ParseFloat lib m of
           None \<Rightarrow> totalSeconds
         | Some v \<Rightarrow> f64_add totalSeconds (f64_mul v (Fin unit)))
      else totalSeconds)"

definition addSeconds :: "golib \<Rightarrow> float64 \<Rightarrow> string \<Rightarrow> float64" where
  "addSeconds lib totalSeconds m =
     (if m \<noteq> [] then
        (case ParseFloat lib m of
           None \<Rightarrow> totalSeconds
         | Some seconds \<Rightarrow> f64_add totalSeconds seconds)
      else totalSeconds)"

definition ParseDurationString :: "golib \<Rightarrow> string \<Rightarrow> float64 \<times> bool" where
  "ParseDurationString lib durationStr =
     (let matches = FindStringSubmatch durationStr
      in if length matches = 0 then (Fin 0, False)
         else (let sign = (if matches ! 1 = ''-'' then Fin (- 1) else Fin 1);
                   totalSeconds = Fin 0;
                   totalSeconds = addUnit lib totalSeconds (matches ! 3) 86400;
                   totalSeconds = addUnit lib totalSeconds (matches ! 5) 3600;
                   totalSeconds = addUnit lib totalSeconds (matches ! 7) 60;
                   totalSeconds = addSeconds lib totalSeconds (matches ! 9);
                   totalSeconds = f64_mul totalSeconds sign
               in (totalSeconds, True)))"

definition SanitizeMetricName :: "golib \<Rightarrow> string \<Rightarrow> string" where
  "SanitizeMetricName lib name =
     (let result = ToLower lib name;
          result = ReplaceAll result CHR ''-'' ''_'';
          result = ReplaceAll result CHR '' '' ''_'';
          result = ReplaceAll result CHR ''.'' ''_'';
          result = ReplaceAll result CHR ''/'' ''_'';
          result = ReplaceAll result CHR ''+'' ''_''
      in result)"

text \<open>
  A library instance for evaluating the model on concrete inputs. On a string with bytes
  above 127 it lowers the ASCII letters only, as Go does when the other code points have
  no case, and does not split into fields; its \<^verbatim>\<open>ParseFloat\<close> refuses everything but
  plain digits. The inputs it is used on do not depend on the last two choices.
\<close>

definition asciiLib :: golib where
  "asciiLib = \<lparr> toLowerUnicode = map asciiLower, fieldsUnicode = (\<lambda>s. [s]),
                parseFloatOther = (\<lambda>s. None) \<rparr>"

section \<open>Package libknot: the control interface\<close>

datatype CtlType = CtlTypeEnd | CtlTypeData | CtlTypeExtra | CtlTypeBlock

record CtlData =
  Section :: string
  ID :: string
  Item :: string
  Zone :: string
  Data :: string

text \<open>A Go \<^verbatim>\<open>error\<close> value: one handed over by the transport, or one built by
  \<^verbatim>\<open>fmt.Errorf\<close>; both carry their message.\<close>

datatype error = TransportError string | Errorf string

fun Error :: "error \<Rightarrow> string" where
  "Error (TransportError msg) = msg"
| "Error (Errorf msg) = msg"

text \<open>
  \<^verbatim>\<open>KnotCtlInterface\<close>. One control object is described by what its calls return:
  \<open>connect\<close> for \<^verbatim>\<open>Connect(path)\<close>, \<open>sendResult cmd rtype\<close> for \<^verbatim>\<open>SendCommand(cmd)\<close>
  (\<open>rtype = None\<close>) and \<^verbatim>\<open>SendCommandWithType(cmd, rtype)\<close>, and \<open>responses i\<close> for
  the call number \<open>i\<close> of \<^verbatim>\<open>ReceiveResponse()\<close>, an error or a record with its type.
  \<^verbatim>\<open>Close\<close> and \<^verbatim>\<open>SetTimeout\<close> return nothing.
\<close>

record KnotCtl =
  connect :: "string \<Rightarrow> error option"
  sendResult :: "string \<Rightarrow> string option \<Rightarrow> error option"
  responses :: "nat \<Rightarrow> error + CtlType \<times> CtlData"

section \<open>Package collector\<close>

subsection \<open>Descriptors and the metric channel\<close>

text \<open>
  A \<^verbatim>\<open>*prometheus.Desc\<close> is a pointer: two descriptors built from the same arguments
  are still two descriptors. \<open>descId\<close> is the allocation number of a descriptor, so that
  equality of \<open>Desc\<close> values is pointer equality. The package variables are allocated
  first, in the order of the source; \<open>firstDynamicDesc\<close> is the next free number.
\<close>

record Desc =
  descId :: nat
  fqName :: string
  helpText :: string
  variableLabels :: "string list"

definition NewDesc :: "nat \<Rightarrow> string \<Rightarrow> string \<Rightarrow> string list \<Rightarrow> Desc" where
  "NewDesc i name h labels = \<lparr> descId = i, fqName = name, helpText = h, variableLabels = labels \<rparr>"

definition makeDescPair :: "nat \<Rightarrow> string \<Rightarrow> string \<Rightarrow> string list \<Rightarrow> Desc \<times> Desc" where
  "makeDescPair i name h labels =
     (NewDesc i name h labels, NewDesc (i + 1) (name @ ''_total'') h labels)"

definition memoryUsageDesc :: "Desc \<times> Desc" where
  "memoryUsageDesc =
     makeDescPair 0 ''knot_memory_usage_bytes'' ''Memory usage of Knot DNS processes'' [''pid'']"

definition zoneSerialDesc :: "Desc \<times> Desc" where
  "zoneSerialDesc =
     makeDescPair 2 ''knot_zone_serial'' ''Zone serial number from Knot DNS'' [''zone'']"

definition zoneRefreshDesc :: "Desc \<times> Desc" where
  "zoneRefreshDesc =
     makeDescPair 4 ''knot_zone_refresh_seconds'' ''Zone SOA refresh timer'' [''zone'']"

definition zoneRetryDesc :: "Desc \<times> Desc" where
  "zoneRetryDesc =
     makeDescPair 6 ''knot_zone_retry_seconds'' ''Zone SOA retry timer'' [''zone'']"

definition zoneExpirationDesc :: "Desc \<times> Desc" where
  "zoneExpirationDesc =
     makeDescPair 8 ''knot_zone_expiration_seconds'' ''Zone SOA expiration timer'' [''zone'']"

definition zoneStatusExpirationDesc :: "Desc \<times> Desc" where
  "zoneStatusExpirationDesc =
     makeDescPair 10 ''knot_zone_status_expiration_seconds''
       ''Zone expiration timer from zone-status'' [''zone'']"

definition zoneStatusRefreshDesc :: "Desc \<times> Desc" where
  "zoneStatusRefreshDesc =
     makeDescPair 12 ''knot_zone_status_refresh_seconds''
       ''Zone refresh timer from zone-status'' [''zone'']"

definition buildInfoDesc :: Desc where
  "buildInfoDesc =
     NewDesc 14 ''knot_build_info'' ''Build information about the exporter and libknot''
       [''version'', ''build_time'', ''git_commit'', ''go_version'', ''libknot_version'',
        ''platform'']"

definition firstDynamicDesc :: nat where
  "firstDynamicDesc = 15"

datatype ValueType = GaugeValue | CounterValue

record Metric =
  desc :: Desc
  valueType :: ValueType
  val :: float64
  labelValues :: "string list"

text \<open>
  The channel \<^verbatim>\<open>ch\<close> is the list of the metrics sent so far, oldest first.
  \<^verbatim>\<open>sendMetrics\<close> sends the gauge and then the counter. The Prometheus library is
  not part of this repository: \<^verbatim>\<open>prometheus.MustNewConstMetric\<close> is taken to build the
  metric from its arguments, without the checks of the library on label values and
  metric names.
\<close>

definition sendMetrics :: "Metric list \<Rightarrow> Desc \<times> Desc \<Rightarrow> float64 \<Rightarrow> string list \<Rightarrow> Metric list" where
  "sendMetrics ch d v labels =
     ch @ [\<lparr> desc = fst d, valueType = GaugeValue, val = v, labelValues = labels \<rparr>,
           \<lparr> desc = snd d, valueType = CounterValue, val = v, labelValues = labels \<rparr>]"

subsection \<open>The descriptor maps\<close>

text \<open>
  The two package-level maps and the allocation counter. A call runs from its first
  lock to its last unlock without another call in between, so the lookup under the read
  lock and the one repeated under the write lock see the same map and are one lookup
  here.
\<close>

record registries =
  globalStatsDescriptors :: "string \<rightharpoonup> Desc \<times> Desc"
  zoneStatsDescriptors :: "string \<rightharpoonup> Desc \<times> Desc"
  nextDesc :: nat

definition initialRegistries :: registries where
  "initialRegistries =
     \<lparr> globalStatsDescriptors = Map.empty, zoneStatsDescriptors = Map.empty,
       nextDesc = firstDynamicDesc \<rparr>"

definition getGlobalStatsDescriptor :: "golib \<Rightarrow> string \<Rightarrow> registries \<Rightarrow> (Desc \<times> Desc) \<times> registries" where
  "getGlobalStatsDescriptor lib item g =
     (case globalStatsDescriptors g item of
        Some d \<Rightarrow> (d, g)
      | None \<Rightarrow>
          (let metricName = ''knot_stats_'' @ SanitizeMetricName lib item;
               h = ''Global statistic: '' @ item;
               labels = [''module'', ''type''];
               d = makeDescPair (nextDesc g) metricName h labels
           in (d, g\<lparr> globalStatsDescriptors := (globalStatsDescriptors g)(item \<mapsto> d),
                     nextDesc := nextDesc g + 2 \<rparr>)))"

definition getZoneStatsDescriptor :: "golib \<Rightarrow> string \<Rightarrow> registries \<Rightarrow> (Desc \<times> Desc) \<times> registries" where
  "getZoneStatsDescriptor lib item g =
     (case zoneStatsDescriptors g item of
        Some d \<Rightarrow> (d, g)
      | None \<Rightarrow>
          (let metricName = ''knot_zone_stats_'' @ SanitizeMetricName lib item;
               h = ''Zone statistic: '' @ item;
               labels = [''zone'', ''module'', ''type''];
               d = makeDescPair (nextDesc g) metricName h labels
           in (d, g\<lparr> zoneStatsDescriptors := (zoneStatsDescriptors g)(item \<mapsto> d),
                     nextDesc := nextDesc g + 2 \<rparr>)))"

subsection \<open>The collector\<close>

record KnotCollector =
  sockPath :: string
  timeout :: int
  collectMemInfo :: bool
  collectStats :: bool
  collectZoneStats :: bool
  collectZoneStatus :: bool
  collectZoneTimers :: bool
  collectZoneSerial :: bool
  libknotVersion :: string

definition convertStateTime :: "golib \<Rightarrow> string \<Rightarrow> float64 option" where
  "convertStateTime lib timeStr =
     (if IsPrefixIn timeStr [''pending'', ''running'', ''frozen''] then Some (Fin 0)
      else if timeStr = ''not scheduled'' \<or> timeStr = ''-'' then None
      else (case ParseDurationString lib timeStr of
              (seconds, ok) \<Rightarrow> if ok then Some seconds else None))"

text \<open>
  Three of the four phases have the same receive loop, without a bound on its
  iterations: receive; return the error if there is one; leave the loop at BLOCK or END;
  otherwise work on the record and go on. \<open>receiveLoop\<close> is this loop and \<open>body\<close> what
  the phase does with a record. The loop takes fuel, the number of iterations it may
  run: \<open>Running\<close> is the loop still running when the fuel is used up, \<open>Returned e\<close> the
  phase returning \<open>e\<close> (\<open>None\<close> for \<^verbatim>\<open>nil\<close>). The state of the phase (the channel, the
  descriptor maps, its local variables) is given back in both cases, as far as the run
  got. \<open>i\<close> is the number of the next call of \<^verbatim>\<open>ReceiveResponse\<close>.
\<close>

datatype outcome = Returned "error option" | Running

primrec receiveLoop :: "nat \<Rightarrow> (CtlType \<Rightarrow> CtlData \<Rightarrow> 's \<Rightarrow> 's) \<Rightarrow> KnotCtl \<Rightarrow> nat \<Rightarrow> 's \<Rightarrow> outcome \<times> 's" where
  "receiveLoop 0 body ctl i st = (Running, st)"
| "receiveLoop (Suc fuel) body ctl i st =
     (case responses ctl i of
        Inl err \<Rightarrow> (Returned (Some err), st)
      | Inr (dataType, data) \<Rightarrow>
          if dataType = CtlTypeBlock \<or> dataType = CtlTypeEnd then (Returned None, st)
          else receiveLoop fuel body ctl (Suc i) (body dataType data st))"

definition globalStatsRecord :: "golib \<Rightarrow> CtlType \<Rightarrow> CtlData \<Rightarrow> registries \<times> Metric list \<Rightarrow> registries \<times> Metric list" where
  "globalStatsRecord lib dataType data st =
     (case st of (g, ch) \<Rightarrow>
        if (dataType = CtlTypeData \<or> dataType = CtlTypeExtra) \<and> Item data \<noteq> [] \<and> Data data \<noteq> []
        then (case ParseFloat lib (Data data) of
                Some v \<Rightarrow>
                  (case getGlobalStatsDescriptor lib (Item data) g of
                     (d, g') \<Rightarrow> (g', sendMetrics ch d v [Section data, ID data]))
              | None \<Rightarrow> st)
        else st)"

definition collectGlobalStats :: "nat \<Rightarrow> golib \<Rightarrow> KnotCollector \<Rightarrow> KnotCtl \<Rightarrow> registries \<times> Metric list \<Rightarrow> outcome \<times> registries \<times> Metric list" where
  "collectGlobalStats fuel lib c ctl st =
     (case sendResult ctl ''stats'' None of
        Some err \<Rightarrow> (Returned (Some err), st)
      | None \<Rightarrow> receiveLoop fuel (globalStatsRecord lib) ctl 0 st)"

text \<open>The state of the zone-status loop: \<^verbatim>\<open>currentZone\<close>, \<^verbatim>\<open>responseIndex\<close> and the
  channel. (\<^verbatim>\<open>responseIndex\<close> is a Go \<^verbatim>\<open>int\<close>; it is a natural number here.)\<close>

definition zoneStatusRecord :: "golib \<Rightarrow> KnotCollector \<Rightarrow> CtlType \<Rightarrow> CtlData \<Rightarrow> string \<times> nat \<times> Metric list \<Rightarrow> string \<times> nat \<times> Metric list" where
  "zoneStatusRecord lib c dataType data st =
     (case st of (currentZone, responseIndex, ch) \<Rightarrow>
        if dataType = CtlTypeData \<or> dataType = CtlTypeExtra then
          (if dataType = CtlTypeData \<and> Zone data \<noteq> [] \<and> Zone data \<noteq> currentZone
           then (Zone data, 0, ch)
           else if dataType = CtlTypeExtra \<and> currentZone \<noteq> [] then
             (let responseIndex = responseIndex + 1;
                  ch = (if collectZoneSerial c \<and> responseIndex = 1
                        then (case ParseFloat lib (Data data) of
                                Some serial \<Rightarrow> sendMetrics ch zoneSerialDesc serial [currentZone]
                              | None \<Rightarrow> ch)
                        else ch);
                  ch = (if collectZoneStatus c \<and> Data data \<noteq> [] \<and> Data data \<noteq> ''-''
                        then (if responseIndex = 7
                              then (case convertStateTime lib (Data data) of
                                      Some seconds \<Rightarrow>
                                        sendMetrics ch zoneStatusRefreshDesc seconds [currentZone]
                                    | None \<Rightarrow> ch)
                              else if responseIndex = 9
                              then (case convertStateTime lib (Data data) of
                                      Some seconds \<Rightarrow>
                                        sendMetrics ch zoneStatusExpirationDesc seconds [currentZone]
                                    | None \<Rightarrow> ch)
                              else ch)
                        else ch)
              in (currentZone, responseIndex, ch))
           else st)
        else st)"

definition collectZoneStatusInfo :: "nat \<Rightarrow> golib \<Rightarrow> KnotCollector \<Rightarrow> KnotCtl \<Rightarrow> Metric list \<Rightarrow> outcome \<times> Metric list" where
  "collectZoneStatusInfo fuel lib c ctl ch =
     (case sendResult ctl ''zone-status'' None of
        Some err \<Rightarrow> (Returned (Some err), ch)
      | None \<Rightarrow>
          (case receiveLoop fuel (zoneStatusRecord lib c) ctl 0 ([], 0, ch) of
             (r, currentZone, responseIndex, ch') \<Rightarrow> (r, ch')))"

definition zoneStatsRecord :: "golib \<Rightarrow> CtlType \<Rightarrow> CtlData \<Rightarrow> registries \<times> Metric list \<Rightarrow> registries \<times> Metric list" where
  "zoneStatsRecord lib dataType data st =
     (case st of (g, ch) \<Rightarrow>
        if (dataType = CtlTypeData \<or> dataType = CtlTypeExtra) \<and> Zone data \<noteq> []
           \<and> Item data \<noteq> [] \<and> Data data \<noteq> []
        then (let statType = Item data; statSubtype = ID data
              in case ParseFloat lib (Data data) of
                   Some v \<Rightarrow>
                     (case getZoneStatsDescriptor lib statType g of
                        (d, g') \<Rightarrow>
                          (g', sendMetrics ch d v [Zone data, Section data, statSubtype]))
                 | None \<Rightarrow> st)
        else st)"

definition collectZoneStatistics :: "nat \<Rightarrow> golib \<Rightarrow> KnotCollector \<Rightarrow> KnotCtl \<Rightarrow> registries \<times> Metric list \<Rightarrow> outcome \<times> registries \<times> Metric list" where
  "collectZoneStatistics fuel lib c ctl st =
     (case sendResult ctl ''zone-stats'' None of
        Some err \<Rightarrow> (Returned (Some err), st)
      | None \<Rightarrow> receiveLoop fuel (zoneStatsRecord lib) ctl 0 st)"

text \<open>The inner loop over the fields 2 to 6 of an SOA record: the values, or \<open>None\<close>
  at the first field that \<^verbatim>\<open>strconv.ParseInt\<close> refuses.\<close>

fun parseNumeric :: "string list \<Rightarrow> int list option" where
  "parseNumeric [] = Some []"
| "parseNumeric (f # fs) =
     (case ParseInt f of
        None \<Rightarrow> None
      | Some v \<Rightarrow> (case parseNumeric fs of None \<Rightarrow> None | Some vs \<Rightarrow> Some (v # vs)))"

definition zoneTimerRecord :: "golib \<Rightarrow> CtlType \<Rightarrow> CtlData \<Rightarrow> Metric list \<Rightarrow> Metric list" where
  "zoneTimerRecord lib dataType data ch =
     (if dataType = CtlTypeData \<and> Zone data \<noteq> [] then
        (let soaFields = Fields lib (Data data)
         in if length soaFields = 7 then
              (let isPrimarySuffix = HasSuffix (soaFields ! 0) ''.'';
                   isAdminValid = HasSuffix (soaFields ! 1) ''.''
               in if isPrimarySuffix \<and> isAdminValid then
                    (case parseNumeric (take 5 (drop 2 soaFields)) of
                       Some numericValues \<Rightarrow>
                         (let ch = sendMetrics ch zoneRefreshDesc
                                     (f64_of_int (numericValues ! 1)) [Zone data];
                              ch = sendMetrics ch zoneRetryDesc
                                     (f64_of_int (numericValues ! 2)) [Zone data];
                              ch = sendMetrics ch zoneExpirationDesc
                                     (f64_of_int (numericValues ! 3)) [Zone data]
                          in ch)
                     | None \<Rightarrow> ch)
                  else ch)
            else ch)
      else ch)"

definition maxResponses :: nat where
  "maxResponses = 100000"

text \<open>The zone-timer loop is bounded by \<^verbatim>\<open>count < maxResponses\<close> and needs no fuel.
  \<^verbatim>\<open>count\<close> is also the number of the next receive call; the loop gives back its
  last value next to the error and the channel.\<close>

function zoneTimerLoop :: "golib \<Rightarrow> KnotCtl \<Rightarrow> nat \<Rightarrow> Metric list \<Rightarrow> error option \<times> nat \<times> Metric list" where
  "zoneTimerLoop lib ctl count ch =
     (if count < maxResponses then
        (case responses ctl count of
           Inl err \<Rightarrow> (Some err, count, ch)
         | Inr (dataType, data) \<Rightarrow>
             if dataType = CtlTypeBlock \<or> dataType = CtlTypeEnd then (None, count + 1, ch)
             else zoneTimerLoop lib ctl (count + 1) (zoneTimerRecord lib dataType data ch))
      else (None, count, ch))"
  by pat_completeness auto
termination
  by (relation "measure (\<lambda>(lib, ctl, count, ch). maxResponses - count)") auto

declare zoneTimerLoop.simps [simp del]

definition collectZoneTimerInfo :: "golib \<Rightarrow> KnotCollector \<Rightarrow> KnotCtl \<Rightarrow> Metric list \<Rightarrow> error option \<times> Metric list" where
  "collectZoneTimerInfo lib c ctl ch =
     (case sendResult ctl ''zone-read'' (Some ''SOA'') of
        Some err \<Rightarrow> (Some (Errorf (''zone-read SOA command failed: '' @ Error err)), ch)
      | None \<Rightarrow> (case zoneTimerLoop lib ctl 0 ch of (r, count, ch') \<Rightarrow> (r, ch')))"

subsection \<open>Collect\<close>

text \<open>
  What \<^verbatim>\<open>Collect\<close> reads from outside the collector: the build variables of the
  package, the platform, the control object that call number \<open>k\<close> of \<^verbatim>\<open>libknot.New()\<close>
  returns (\<open>None\<close> for \<^verbatim>\<open>nil\<close>), and the result of \<^verbatim>\<open>memoryUsage()\<close> in the order in
  which the \<^verbatim>\<open>range\<close> loop visits it.
\<close>

record environment =
  Version :: string
  BuildTime :: string
  GitCommit :: string
  GoVersion :: string
  platform :: string
  newCtl :: "nat \<Rightarrow> KnotCtl option"
  memUsage :: "(string \<times> nat) list"

definition buildInfoMetric :: "KnotCollector \<Rightarrow> environment \<Rightarrow> Metric" where
  "buildInfoMetric c env =
     \<lparr> desc = buildInfoDesc, valueType = GaugeValue, val = Fin 1,
       labelValues = [Version env, BuildTime env, GitCommit env, GoVersion env,
                      libknotVersion c, platform env] \<rparr>"

text \<open>\<^verbatim>\<open>libknot.New()\<close> followed by \<^verbatim>\<open>Connect\<close>: the connected control object, or
  \<open>None\<close> where \<^verbatim>\<open>Collect\<close> returns.\<close>

definition openSession :: "environment \<Rightarrow> KnotCollector \<Rightarrow> nat \<Rightarrow> KnotCtl option" where
  "openSession env c k =
     (case newCtl env k of
        None \<Rightarrow> None
      | Some ctl \<Rightarrow> (case connect ctl (sockPath c) of Some err \<Rightarrow> None | None \<Rightarrow> Some ctl))"

text \<open>\<^verbatim>\<open>Collect\<close> from its end to its start. Each part gives back whether \<^verbatim>\<open>Collect\<close>
  returned (\<open>False\<close>: a receive loop ran out of fuel), the descriptor maps and the
  channel. \<open>k\<close> counts the calls of \<^verbatim>\<open>libknot.New()\<close> made so far. \<^verbatim>\<open>Collect\<close> has
  no result in the source: the error of a phase is logged and dropped. The mutex of the
  collector makes one call of \<^verbatim>\<open>Collect\<close> run after the other; one call is modelled.\<close>

definition collectTimersPart :: "golib \<Rightarrow> KnotCollector \<Rightarrow> environment \<Rightarrow> nat \<Rightarrow> registries \<times> Metric list \<Rightarrow> bool \<times> registries \<times> Metric list" where
  "collectTimersPart lib c env k st =
     (case st of (g, ch) \<Rightarrow>
        if collectZoneTimers c then
          (case openSession env c k of
             None \<Rightarrow> (True, st)
           | Some ctl \<Rightarrow> (case collectZoneTimerInfo lib c ctl ch of (err, ch') \<Rightarrow> (True, g, ch')))
        else (True, st))"

definition collectZoneStatsPart :: "nat \<Rightarrow> golib \<Rightarrow> KnotCollector \<Rightarrow> environment \<Rightarrow> nat \<Rightarrow> registries \<times> Metric list \<Rightarrow> bool \<times> registries \<times> Metric list" where
  "collectZoneStatsPart fuel lib c env k st =
     (if collectZoneStats c then
        (case openSession env c k of
           None \<Rightarrow> (True, st)
         | Some ctl \<Rightarrow>
             (case collectZoneStatistics fuel lib c ctl st of
                (Running, st') \<Rightarrow> (False, st')
              | (Returned err, st') \<Rightarrow> collectTimersPart lib c env (k + 1) st'))
      else collectTimersPart lib c env k st)"

definition collectZoneStatusPart :: "nat \<Rightarrow> golib \<Rightarrow> KnotCollector \<Rightarrow> environment \<Rightarrow> nat \<Rightarrow> registries \<times> Metric list \<Rightarrow> bool \<times> registries \<times> Metric list" where
  "collectZoneStatusPart fuel lib c env k st =
     (case st of (g, ch) \<Rightarrow>
        (case openSession env c k of
           None \<Rightarrow> (True, st)
         | Some ctl \<Rightarrow>
             if collectZoneStatus c \<or> collectZoneSerial c then
               (case collectZoneStatusInfo fuel lib c ctl ch of
                  (Running, ch') \<Rightarrow> (False, g, ch')
                | (Returned err, ch') \<Rightarrow> collectZoneStatsPart fuel lib c env (k + 1) (g, ch'))
             else collectZoneStatsPart fuel lib c env (k + 1) st))"

definition Collect :: "nat \<Rightarrow> golib \<Rightarrow> KnotCollector \<Rightarrow> environment \<Rightarrow> registries \<times> Metric list \<Rightarrow> bool \<times> registries \<times> Metric list" where
  "Collect fuel lib c env st =
     (case st of (g, ch) \<Rightarrow>
        (let ch = ch @ [buildInfoMetric c env]
         in case openSession env c 0 of
              None \<Rightarrow> (True, g, ch)
            | Some ctl \<Rightarrow>
                (let ch = (if collectMemInfo c
                           then foldl (\<lambda>ch (pid, usage).
                                  sendMetrics ch memoryUsageDesc (f64_of_int (int usage)) [pid])
                                  ch (memUsage env)
                           else ch)
                 in if collectStats c then
                      (case collectGlobalStats fuel lib c ctl (g, ch) of
                         (Running, st') \<Rightarrow> (False, st')
                       | (Returned err, st') \<Rightarrow> collectZoneStatusPart fuel lib c env 1 st')
                    else collectZoneStatusPart fuel lib c env 1 (g, ch))))"

section \<open>Notions of the specification\<close>

text \<open>
  The duration grammar, from the words of the specification: a sign, then the groups
  \<^verbatim>\<open><digits>D\<close>, \<^verbatim>\<open><digits>h\<close>, \<^verbatim>\<open><digits>m\<close>, \<^verbatim>\<open><digits>s\<close>, each optional, in this
  order. A group is \<open>None\<close> when absent and \<open>Some ds\<close> with its digits when present;
  \<open>durationText\<close> is the string, \<open>durationSeconds\<close> the sum
  \<open>D * 86400 + h * 3600 + m * 60 + s\<close>.
\<close>

definition unitText :: "string option \<Rightarrow> char \<Rightarrow> string" where
  "unitText g u = (case g of None \<Rightarrow> [] | Some ds \<Rightarrow> ds @ [u])"

definition durationText :: "char \<Rightarrow> string option \<Rightarrow> string option \<Rightarrow> string option \<Rightarrow> string option \<Rightarrow> string" where
  "durationText sg D h m s =
     sg # unitText D CHR ''D'' @ unitText h CHR ''h'' @ unitText m CHR ''m'' @ unitText s CHR ''s''"

definition groupOK :: "string option \<Rightarrow> bool" where
  "groupOK g = (case g of None \<Rightarrow> True | Some ds \<Rightarrow> isNumber ds)"

definition groupDigits :: "string option \<Rightarrow> string" where
  "groupDigits g = (case g of None \<Rightarrow> [] | Some ds \<Rightarrow> ds)"

definition groupValue :: "string option \<Rightarrow> nat" where
  "groupValue g = (case g of None \<Rightarrow> 0 | Some ds \<Rightarrow> digitsValue ds)"

definition durationSeconds :: "string option \<Rightarrow> string option \<Rightarrow> string option \<Rightarrow> string option \<Rightarrow> nat" where
  "durationSeconds D h m s =
     groupValue D * 86400 + groupValue h * 3600 + groupValue m * 60 + groupValue s"

text \<open>
  The largest float64 is \<open>2^1024 - 2^971\<close>. A group whose value is \<open>2^1024 - 2^970\<close> or
  more, half a unit in the last place above it, overflows float64: it is the range error
  of \<^verbatim>\<open>strconv.ParseFloat\<close>. \<open>countedValue\<close> is what a group adds when the groups with a
  range error are left out, \<open>countedSeconds\<close> the sum over the groups that are counted.
\<close>

definition rangeError :: "string option \<Rightarrow> bool" where
  "rangeError g = (2 ^ 1024 - 2 ^ 970 \<le> groupValue g)"

definition countedValue :: "string option \<Rightarrow> nat" where
  "countedValue g = (if rangeError g then 0 else groupValue g)"

definition countedSeconds :: "string option \<Rightarrow> string option \<Rightarrow> string option \<Rightarrow> string option \<Rightarrow> nat" where
  "countedSeconds D h m s =
     countedValue D * 86400 + countedValue h * 3600 + countedValue m * 60 + countedValue s"

text \<open>
  What the proofs need of the Unicode path of \<^verbatim>\<open>strings.ToLower\<close>: lower-casing a
  lower-cased string changes nothing, and lower-casing works code point by code point,
  so it commutes with replacing one of the ASCII characters \<open>- ./+\<close>, which have no
  case and are nobody's lower case, by an underscore.
\<close>

definition special :: "char \<Rightarrow> bool" where
  "special c = (c \<in> set ''- ./+'')"

definition unicodeLowerLaws :: "golib \<Rightarrow> bool" where
  "unicodeLowerLaws lib =
     (\<forall>s. \<not> isASCII s \<longrightarrow>
        ToLower lib (toLowerUnicode lib s) = toLowerUnicode lib s \<and>
        list_all (\<lambda>c. toLowerUnicode lib (ReplaceAll s c ''_'') =
                       ReplaceAll (toLowerUnicode lib s) c ''_'') ''- ./+'')"

definition replaceSpecials :: "string \<Rightarrow> string" where
  "replaceSpecials s =
     ReplaceAll (ReplaceAll (ReplaceAll (ReplaceAll (ReplaceAll s CHR ''-'' ''_'')
       CHR '' '' ''_'') CHR ''.'' ''_'') CHR ''/'' ''_'') CHR ''+'' ''_''"

text \<open>A result of \<^verbatim>\<open>ReceiveResponse\<close> after which a receive loop goes on: no error,
  and a record that is neither BLOCK nor END.\<close>

definition continues :: "error + CtlType \<times> CtlData \<Rightarrow> bool" where
  "continues r =
     (case r of Inl err \<Rightarrow> False
      | Inr (dataType, data) \<Rightarrow> dataType \<noteq> CtlTypeBlock \<and> dataType \<noteq> CtlTypeEnd)"

text \<open>
  The descriptor maps as the two get functions leave them: every entry is the pair made
  for its key, with the name of its map's prefix, by an allocation after the package
  variables and before \<open>nextDesc\<close>. The maps are empty at the start of the process and
  only the get functions write them.
\<close>

definition globalEntry :: "golib \<Rightarrow> nat \<Rightarrow> string \<Rightarrow> Desc \<times> Desc" where
  "globalEntry lib i item =
     makeDescPair i (''knot_stats_'' @ SanitizeMetricName lib item)
       (''Global statistic: '' @ item) [''module'', ''type'']"

definition zoneEntry :: "golib \<Rightarrow> nat \<Rightarrow> string \<Rightarrow> Desc \<times> Desc" where
  "zoneEntry lib i item =
     makeDescPair i (''knot_zone_stats_'' @ SanitizeMetricName lib item)
       (''Zone statistic: '' @ item) [''zone'', ''module'', ''type'']"

definition registryOK :: "golib \<Rightarrow> registries \<Rightarrow> bool" where
  "registryOK lib g =
     (firstDynamicDesc \<le> nextDesc g \<and>
      (\<forall>item d. globalStatsDescriptors g item = Some d \<longrightarrow>
         (\<exists>i. firstDynamicDesc \<le> i \<and> i + 2 \<le> nextDesc g \<and> d = globalEntry lib i item)) \<and>
      (\<forall>item d. zoneStatsDescriptors g item = Some d \<longrightarrow>
         (\<exists>i. firstDynamicDesc \<le> i \<and> i + 2 \<le> nextDesc g \<and> d = zoneEntry lib i item)))"

text \<open>
  Control objects for stating the claims. \<open>answers ctl rs\<close>: the first calls of
  \<^verbatim>\<open>ReceiveResponse\<close> return the records \<open>rs\<close>, in this order. \<open>endedAt ctl n\<close> is
  \<open>ctl\<close> with the call number \<open>n\<close> returning BLOCK. \<open>scripted s rs\<close> accepts every
  connection, answers every command with \<open>s\<close> and the receive calls with \<open>rs\<close>, and
  times out after them.
\<close>

definition answers :: "KnotCtl \<Rightarrow> (CtlType \<times> CtlData) list \<Rightarrow> bool" where
  "answers ctl rs = (\<forall>j < length rs. responses ctl j = Inr (rs ! j))"

definition noData :: CtlData where
  "noData = \<lparr> Section = [], ID = [], Item = [], Zone = [], Data = [] \<rparr>"

definition endedAt :: "KnotCtl \<Rightarrow> nat \<Rightarrow> KnotCtl" where
  "endedAt ctl n = ctl\<lparr> responses := (responses ctl)(n := Inr (CtlTypeBlock, noData)) \<rparr>"

definition scripted :: "error option \<Rightarrow> (error + CtlType \<times> CtlData) list \<Rightarrow> KnotCtl" where
  "scripted s rs =
     \<lparr> connect = (\<lambda>path. None), sendResult = (\<lambda>cmd rtype. s),
       responses = (\<lambda>i. if i < length rs then rs ! i else Inl (TransportError ''timeout'')) \<rparr>"

text \<open>The collector of the tests, with every option enabled.\<close>

definition allEnabled :: KnotCollector where
  "allEnabled =
     \<lparr> sockPath = ''/test'', timeout = 1000, collectMemInfo = True, collectStats = True,
       collectZoneStats = True, collectZoneStatus = True, collectZoneTimers = True,
       collectZoneSerial = True, libknotVersion = ''3.3.0'' \<rparr>"

text \<open>A record that leaves the zone-status phase without a current zone: an EXTRA
  record, or a DATA record with an empty zone field.\<close>

definition zoneless :: "error + CtlType \<times> CtlData \<Rightarrow> bool" where
  "zoneless r =
     (case r of Inl err \<Rightarrow> False
      | Inr (dataType, data) \<Rightarrow>
          dataType = CtlTypeExtra \<or> (dataType = CtlTypeData \<and> Zone data = []))"

text \<open>A transport that never signals BLOCK or END and never fails: every receive call
  returns an EXTRA record.\<close>

definition endless :: KnotCtl where
  "endless =
     \<lparr> connect = (\<lambda>path. None), sendResult = (\<lambda>cmd rtype. None),
       responses = (\<lambda>i. Inr (CtlTypeExtra, noData)) \<rparr>"



definition gauge :: "Desc \<times> Desc \<Rightarrow> float64 \<Rightarrow> string \<Rightarrow> Metric" where
  "gauge d v zone = \<lparr> desc = fst d, valueType = GaugeValue, val = v, labelValues = [zone] \<rparr>"

definition counter :: "Desc \<times> Desc \<Rightarrow> float64 \<Rightarrow> string \<Rightarrow> Metric" where
  "counter d v zone = \<lparr> desc = snd d, valueType = CounterValue, val = v, labelValues = [zone] \<rparr>"

text \<open>\<open>settles ctl fuel\<close>: one of the first \<open>fuel\<close> receive calls returns an error, BLOCK
  or END. \<open>unreachable\<close> is an environment whose server refuses every connection.\<close>

definition settles :: "KnotCtl \<Rightarrow> nat \<Rightarrow> bool" where
  "settles ctl fuel = (\<exists>n<fuel. \<not> continues (responses ctl n))"

definition unreachable :: environment where
  "unreachable =
     \<lparr> Version = ''dev'', BuildTime = ''unknown'', GitCommit = ''unknown'',
       GoVersion = ''go1.21'', platform = ''linux/amd64'',
       newCtl = (\<lambda>k. Some ((scripted None [])
                  \<lparr> connect := (\<lambda>path. Some (TransportError ''connection refused'')) \<rparr>)),
       memUsage = [] \<rparr>"

text \<open>Two more environments: in \<open>unallocated\<close> \<^verbatim>\<open>libknot.New()\<close> returns \<^verbatim>\<open>nil\<close>; in
  \<open>broken\<close> every connection is accepted and every command fails at the send step, and
  one process is reported by \<^verbatim>\<open>memoryUsage()\<close>.\<close>

definition unallocated :: environment where
  "unallocated = unreachable\<lparr> newCtl := (\<lambda>k. None) \<rparr>"

definition broken :: environment where
  "broken =
     unreachable\<lparr> newCtl := (\<lambda>k. Some (scripted (Some (TransportError ''broken pipe'')) [])),
                  memUsage := [(''4242'', 1048576)] \<rparr>"

text \<open>\<open>clean base ch\<close>: the channel \<open>ch\<close> is \<open>base\<close> followed by metrics none of which has
  the build-info descriptor. \<open>good\<close> adds the descriptor maps being as the get functions
  leave them.\<close>

definition clean :: "Metric list \<Rightarrow> Metric list \<Rightarrow> bool" where
  "clean base ch = (\<exists>rest. ch = base @ rest \<and> list_all (\<lambda>m. desc m \<noteq> buildInfoDesc) rest)"

definition good :: "golib \<Rightarrow> Metric list \<Rightarrow> registries \<times> Metric list \<Rightarrow> bool" where
  "good lib base st = (registryOK lib (fst st) \<and> clean base (snd st))"

section \<open>Properties\<close>

subsection \<open>Evaluation of the bit length on numerals\<close>

lemma bitLen_numeral [simp]:
  "bitLen 0 = 0"
  "bitLen (Suc 0) = 1"
  "bitLen (numeral (Num.Bit0 k)) = Suc (bitLen (numeral k))"
  "bitLen (numeral (Num.Bit1 k)) = Suc (bitLen (numeral k))"
  by (simp_all add: bitLen.simps[of 0] bitLen.simps[of "Suc 0"]
      bitLen.simps[of "numeral (Num.Bit0 k)"] bitLen.simps[of "numeral (Num.Bit1 k)"])

subsection \<open>float64 rounding\<close>

lemma bitLen_le_iff: "bitLen n \<le> k \<longleftrightarrow> n < 2 ^ k"
proof (induction n arbitrary: k rule: bitLen.induct)
  case (1 n)
  show ?case
  proof (cases "n = 0")
    case True
    then show ?thesis by (simp add: bitLen.simps[of 0])
  next
    case False
    show ?thesis
    proof (cases k)
      case 0
      with False show ?thesis by (simp add: bitLen.simps[of n])
    next
      case (Suc j)
      have "bitLen (n div 2) \<le> j \<longleftrightarrow> n div 2 < 2 ^ j"
        using "1.IH"[OF False] .
      moreover have "n div 2 < 2 ^ j \<longleftrightarrow> n < 2 ^ Suc j"
        by auto
      ultimately show ?thesis
        using False Suc by (simp add: bitLen.simps[of n])
    qed
  qed
qed

lemma round53_exact: "n \<le> 2 ^ 53 \<Longrightarrow> round53 n = n"
proof (cases "n < 2 ^ 53")
  case True
  then show ?thesis by (simp add: round53_def bitLen_le_iff)
next
  case False
  assume "n \<le> 2 ^ 53"
  with False have "n = 2 ^ 53" by simp
  then show ?thesis by (simp add: round53_def Let_def)
qed

lemma f64_of_int_exact: "\<bar>i\<bar> \<le> 2 ^ 53 \<Longrightarrow> f64_of_int i = Fin i"
proof -
  assume a: "\<bar>i\<bar> \<le> 2 ^ 53"
  then have n: "nat \<bar>i\<bar> \<le> 2 ^ 53"
    by (simp add: nat_le_iff)
  have "(2::nat) ^ 53 < 2 ^ 1024"
    by (rule power_strict_increasing) simp_all
  with n have "\<not> (2::nat) ^ 1024 \<le> nat \<bar>i\<bar>" by linarith
  with n show ?thesis
    by (simp add: f64_of_int_def round53_exact Let_def del: power_strict_increasing_iff)
qed


lemma bitLen_lower: "0 < n \<Longrightarrow> 2 ^ (bitLen n - 1) \<le> n"
proof -
  assume "0 < n"
  then have "0 < bitLen n" by (simp add: bitLen.simps[of n])
  then have "\<not> bitLen n \<le> bitLen n - 1" by simp
  then show ?thesis by (simp add: bitLen_le_iff)
qed

lemma round53_lower:
  assumes "0 < n"
  shows "2 ^ (bitLen n - 1) \<le> round53 n"
proof (cases "bitLen n \<le> 53")
  case True
  then show ?thesis using bitLen_lower[OF assms] by (simp add: round53_def)
next
  case False
  define sh where "sh = bitLen n - 53"
  define q where "q = n div 2 ^ sh"
  have e: "bitLen n - 1 = 52 + sh" using False by (simp add: sh_def)
  have "(2::nat) ^ (bitLen n - 1) = 2 ^ 52 * 2 ^ sh"
    unfolding e by (rule power_add)
  then have "2 ^ 52 * 2 ^ sh \<le> n"
    using bitLen_lower[OF assms] by simp
  then have "2 ^ 52 * 2 ^ sh div 2 ^ sh \<le> q"
    unfolding q_def by (rule div_le_mono)
  then have q: "2 ^ 52 \<le> q" by simp
  have "q * 2 ^ sh \<le> round53 n"
    using False by (simp add: round53_def Let_def sh_def[symmetric] q_def[symmetric])
  moreover have "2 ^ 52 * 2 ^ sh \<le> q * 2 ^ sh"
    using q by (rule mult_le_mono1)
  ultimately have "2 ^ 52 * 2 ^ sh \<le> round53 n" by (rule order_trans[rotated])
  moreover have "(2::nat) ^ (bitLen n - 1) = 2 ^ 52 * 2 ^ sh"
    unfolding e by (rule power_add)
  ultimately show ?thesis by simp
qed

lemma round53_overflow:
  assumes "2 ^ 1024 \<le> n"
  shows "2 ^ 1024 \<le> round53 n"
proof -
  have pos: "0 < n" using assms by (metis gr0I not_le zero_less_numeral zero_less_power)
  have "\<not> bitLen n \<le> 1024" using assms by (simp add: bitLen_le_iff)
  then have "(2::nat) ^ 1024 \<le> 2 ^ (bitLen n - 1)"
    by (intro power_increasing) simp_all
  then show ?thesis using round53_lower[OF pos] by (rule order_trans)
qed

text \<open>The range error of \<^verbatim>\<open>strconv.ParseFloat\<close> on a string of digits: the value
  rounds to \<open>2^1024\<close> or more exactly when it is at least \<open>2^1024 - 2^970\<close>.\<close>

lemma round53_range:
  assumes "2 ^ 1024 - 2 ^ 970 \<le> n"
  shows "2 ^ 1024 \<le> round53 n"
proof (cases "2 ^ 1024 \<le> n")
  case True
  then show ?thesis by (rule round53_overflow)
next
  case False
  define a :: nat where "a = 2 ^ 970"
  define q0 :: nat where "q0 = 2 ^ 53 - 1"
  have apos: "0 < a" by (simp add: a_def)
  have p971: "(2::nat) ^ 971 = 2 * a"
    unfolding a_def by (simp add: power_Suc[symmetric] del: power_Suc)
  have "(2::nat) ^ 1024 = 2 ^ 53 * 2 ^ 971"
    by (simp add: power_add[symmetric])
  then have p1024: "(2::nat) ^ 1024 = Suc q0 * (2 * a)"
    unfolding p971 q0_def by simp
  have lo: "q0 * (2 * a) + a \<le> n"
    using assms unfolding p1024 a_def[symmetric] by simp
  have hi: "n < Suc q0 * (2 * a)"
    using False unfolding p1024 by simp
  have "(2::nat) ^ 1023 \<le> 2 ^ 1024 - 2 ^ 970"
    by simp
  then have "\<not> n < 2 ^ 1023" using assms by linarith
  then have b1: "\<not> bitLen n \<le> 1023" by (simp add: bitLen_le_iff)
  have b2: "bitLen n \<le> 1024" using False by (simp add: bitLen_le_iff)
  from b1 b2 have bl: "bitLen n = 1024" by linarith
  have q: "n div (2 * a) = q0"
    by (rule div_nat_eqI) (use lo hi in \<open>simp_all add: mult.commute\<close>)
  have "n mod (2 * a) = n - q0 * (2 * a)"
    using q by (metis minus_div_mult_eq_mod)
  then have r: "a \<le> n mod (2 * a)" using lo by linarith
  have od: "odd q0" unfolding q0_def by simp
  from r have r': "a < n mod (2 * a) \<or> n mod (2 * a) = a" by linarith
  have "round53 n = Suc q0 * (2 * a)"
    using r' od
    by (auto simp add: round53_def bl Let_def p971 q a_def[symmetric] simp del: power_numeral mult_Suc)
  then show ?thesis unfolding p1024 by simp
qed

lemma round53_le_next:
  assumes "\<not> bitLen n \<le> 53"
  shows "round53 n \<le> (n div 2 ^ (bitLen n - 53) + 1) * 2 ^ (bitLen n - 53)"
  using assms by (simp add: round53_def Let_def del: power_numeral)

lemma round53_finite:
  assumes "n < 2 ^ 1024 - 2 ^ 970"
  shows "round53 n < 2 ^ 1024"
proof (cases "bitLen n \<le> 53")
  case True
  then have "round53 n = n" by (simp add: round53_def)
  with assms show ?thesis by linarith
next
  case False
  define sh where "sh = bitLen n - 53"
  define q where "q = n div 2 ^ sh"
  have bl: "bitLen n = 53 + sh" using False by (simp add: sh_def)
  have "n < 2 ^ bitLen n" using bitLen_le_iff[of n "bitLen n"] by simp
  then have "n < 2 ^ 53 * 2 ^ sh" unfolding bl by (simp only: power_add)
  then have "n div 2 ^ sh < 2 ^ 53"
    by (simp add: less_mult_imp_div_less del: power_numeral)
  then have q: "q + 1 \<le> 2 ^ 53" unfolding q_def by (simp del: power_numeral)
  have up: "round53 n \<le> (q + 1) * 2 ^ sh"
    unfolding q_def sh_def by (rule round53_le_next[OF False])
  show ?thesis
  proof (cases "bitLen n \<le> 1023")
    case True
    then have "sh \<le> 970" unfolding sh_def by simp
    then have "(2::nat) ^ sh \<le> 2 ^ 970" by (intro power_increasing) simp_all
    then have "(q + 1) * 2 ^ sh \<le> 2 ^ 53 * 2 ^ 970"
      using q by (intro mult_le_mono)
    also have "\<dots> = 2 ^ 1023" by (simp add: power_add[symmetric] del: power_numeral)
    also have "\<dots> < 2 ^ 1024" by (intro power_strict_increasing) simp_all
    finally show ?thesis using up by linarith
  next
    case F: False
    have "n < 2 ^ 1024" using assms by linarith
    then have "bitLen n \<le> 1024" by (simp add: bitLen_le_iff)
    with F have b: "bitLen n = 1024" by linarith
    then have sh: "sh = 971" unfolding sh_def by simp
    define a :: nat where "a = 2 ^ 970"
    define q0 :: nat where "q0 = 2 ^ 53 - 1"
    have apos: "0 < a" by (simp add: a_def)
    have p971: "(2::nat) ^ 971 = 2 * a"
      unfolding a_def by (simp add: power_Suc[symmetric] del: power_Suc)
    have "(2::nat) ^ 1024 = 2 ^ 53 * 2 ^ 971"
      by (simp add: power_add[symmetric])
    then have p1024: "(2::nat) ^ 1024 = Suc q0 * (2 * a)"
      unfolding p971 q0_def by simp
    have hi: "n < q0 * (2 * a) + a"
      using assms unfolding p1024 a_def[symmetric] by simp
    have qd: "q = n div (2 * a)" unfolding q_def sh p971 ..
    have qle: "q \<le> q0" using q unfolding q0_def by simp
    show ?thesis
    proof (cases "q = q0")
      case False
      with qle have "q + 1 \<le> q0" by simp
      then have "(q + 1) * (2 * a) \<le> q0 * (2 * a)" by (rule mult_le_mono1)
      also have "\<dots> < Suc q0 * (2 * a)" using apos by simp
      finally show ?thesis using up unfolding sh p971 p1024 by linarith
    next
      case True
      have "n mod (2 * a) = n - q0 * (2 * a)"
        using True qd by (metis minus_div_mult_eq_mod)
      then have r: "n mod (2 * a) < a" using hi apos by linarith
      have "round53 n = q0 * (2 * a)"
        using r True[unfolded qd]
        by (auto simp add: round53_def b Let_def p971 a_def[symmetric] simp del: power_numeral mult_Suc)
      then show ?thesis unfolding p1024 using apos by simp
    qed
  qed
qed

lemma ParseFloat_range_error:
  assumes "isNumber ds"
  shows "ParseFloat lib ds = None \<longleftrightarrow> 2 ^ 1024 - 2 ^ 970 \<le> digitsValue ds"
proof
  assume "ParseFloat lib ds = None"
  then have "2 ^ 1024 \<le> round53 (digitsValue ds)"
    using assms by (simp add: ParseFloat_def Let_def del: power_numeral split: if_splits)
  then show "2 ^ 1024 - 2 ^ 970 \<le> digitsValue ds"
    using round53_finite[of "digitsValue ds"] by linarith
next
  assume "2 ^ 1024 - 2 ^ 970 \<le> digitsValue ds"
  then have "2 ^ 1024 \<le> round53 (digitsValue ds)" by (rule round53_range)
  then show "ParseFloat lib ds = None"
    using assms by (simp add: ParseFloat_def Let_def del: power_numeral)
qed

subsection \<open>The duration pattern\<close>

lemma not_isDigit_units [simp]:
  "\<not> isDigit CHR ''D''" "\<not> isDigit CHR ''h''" "\<not> isDigit CHR ''m''" "\<not> isDigit CHR ''s''"
  by (simp_all add: isDigit_def)

lemma unitGroup_Nil [simp]: "unitGroup u [] = ([], [], [])"
  by (simp add: unitGroup_def)

lemma unitGroup_digits:
  assumes "list_all isDigit ds" "\<not> isDigit v"
  shows "unitGroup u (ds @ v # rest) =
           (if ds \<noteq> [] \<and> v = u then (ds @ [u], ds, rest) else ([], [], ds @ v # rest))"
proof -
  from assms have "takeWhile isDigit (ds @ v # rest) = ds"
    by (simp add: list_all_iff takeWhile_append2)
  moreover from assms have "dropWhile isDigit (ds @ v # rest) = v # rest"
    by (simp add: list_all_iff dropWhile_append2)
  ultimately show ?thesis
    by (simp add: unitGroup_def)
qed

lemma unitGroup_all_digits:
  assumes "list_all isDigit ds"
  shows "unitGroup u ds = ([], [], ds)"
proof -
  from assms have "dropWhile isDigit ds = []"
    by (simp add: list_all_iff)
  then show ?thesis
    by (simp add: unitGroup_def)
qed

lemma addUnit_absent [simp]: "addUnit lib t [] k = t"
  by (simp add: addUnit_def)

lemma addUnit_exact:
  assumes "isNumber ds" "0 \<le> t" "0 \<le> k" "t + int (digitsValue ds) * k \<le> 2 ^ 53" "1 \<le> k"
  shows "addUnit lib (Fin t) ds k = Fin (t + int (digitsValue ds) * k)"
proof -
  have nz: "ds \<noteq> []" using assms(1) by (simp add: isNumber_def)
  have "int (digitsValue ds) * 1 \<le> int (digitsValue ds) * k"
    using assms(5) by (intro mult_left_mono) simp_all
  then have v: "int (digitsValue ds) \<le> 2 ^ 53"
    using assms(2,4) by linarith
  then have vn: "digitsValue ds \<le> 2 ^ 53"
    by (metis of_nat_le_iff of_nat_numeral of_nat_power)
  have "(2::nat) ^ 53 < 2 ^ 1024"
    by (rule power_strict_increasing) simp_all
  with vn have "\<not> (2::nat) ^ 1024 \<le> digitsValue ds" by linarith
  then have pf: "ParseFloat lib ds = Some (Fin (int (digitsValue ds)))"
    using assms(1) vn by (simp add: ParseFloat_def round53_exact Let_def del: power_strict_increasing_iff)
  have p: "\<bar>int (digitsValue ds) * k\<bar> \<le> 2 ^ 53"
    using assms(2,3,4) by (simp add: abs_mult)
  have s: "\<bar>t + int (digitsValue ds) * k\<bar> \<le> 2 ^ 53"
    using assms(2,3,4) by simp
  show ?thesis
    using nz pf p s by (simp add: addUnit_def f64_of_int_exact)
qed

lemma FindStringSubmatch_durationText:
  assumes "sg = CHR ''+'' \<or> sg = CHR ''-''" "groupOK D" "groupOK h" "groupOK m" "groupOK s"
  shows "FindStringSubmatch (durationText sg D h m s) =
           [durationText sg D h m s, [sg],
            unitText D CHR ''D'', groupDigits D, unitText h CHR ''h'', groupDigits h,
            unitText m CHR ''m'', groupDigits m, unitText s CHR ''s'', groupDigits s]"
  using assms
  by (cases D; cases h; cases m; cases s)
     (simp_all add: FindStringSubmatch_def durationText_def unitText_def groupDigits_def
        groupOK_def isNumber_def unitGroup_digits)


lemma addSeconds_absent [simp]: "addSeconds lib t [] = t"
  by (simp add: addSeconds_def)

lemma addSeconds_exact:
  assumes "isNumber ds" "0 \<le> t" "t + int (digitsValue ds) \<le> 2 ^ 53"
  shows "addSeconds lib (Fin t) ds = Fin (t + int (digitsValue ds))"
proof -
  have nz: "ds \<noteq> []" using assms(1) by (simp add: isNumber_def)
  have v: "int (digitsValue ds) \<le> 2 ^ 53"
    using assms(2,3) by linarith
  then have vn: "digitsValue ds \<le> 2 ^ 53"
    by (metis of_nat_le_iff of_nat_numeral of_nat_power)
  have "(2::nat) ^ 53 < 2 ^ 1024"
    by (rule power_strict_increasing) simp_all
  with vn have "\<not> (2::nat) ^ 1024 \<le> digitsValue ds" by linarith
  then have pf: "ParseFloat lib ds = Some (Fin (int (digitsValue ds)))"
    using assms(1) vn by (simp add: ParseFloat_def round53_exact Let_def del: power_strict_increasing_iff)
  have s: "\<bar>t + int (digitsValue ds)\<bar> \<le> 2 ^ 53"
    using assms(2,3) by simp
  show ?thesis
    using nz pf s by (simp add: addSeconds_def f64_of_int_exact)
qed

lemma addSeconds_groupDigits:
  assumes "groupOK g" "0 \<le> t" "t + int (groupValue g) \<le> 2 ^ 53"
  shows "addSeconds lib (Fin t) (groupDigits g) = Fin (t + int (groupValue g))"
  using assms by (cases g) (simp_all add: groupDigits_def groupOK_def groupValue_def addSeconds_exact)

lemma addUnit_groupDigits:
  assumes "groupOK g" "0 \<le> t" "t + int (groupValue g) * k \<le> 2 ^ 53" "1 \<le> k"
  shows "addUnit lib (Fin t) (groupDigits g) k = Fin (t + int (groupValue g) * k)"
  using assms by (cases g) (simp_all add: groupDigits_def groupOK_def groupValue_def addUnit_exact)

lemma duration_exact:
  assumes "sg = CHR ''+'' \<or> sg = CHR ''-''"
    and "groupOK D" and "groupOK h" and "groupOK m" and "groupOK s"
    and "durationSeconds D h m s \<le> 2 ^ 53"
  shows "ParseDurationString lib (durationText sg D h m s) =
           (Fin ((if sg = CHR ''-'' then - 1 else 1) * int (durationSeconds D h m s)), True)"
proof -
  let ?d = "int (groupValue D)" and ?h = "int (groupValue h)"
  let ?m = "int (groupValue m)" and ?s = "int (groupValue s)"
  have tot: "int (durationSeconds D h m s) = ?d * 86400 + ?h * 3600 + ?m * 60 + ?s"
    by (simp add: durationSeconds_def)
  have "int (durationSeconds D h m s) \<le> 2 ^ 53"
    using assms(6) by (metis of_nat_le_iff of_nat_numeral of_nat_power)
  then have bound: "?d * 86400 + ?h * 3600 + ?m * 60 + ?s \<le> 2 ^ 53"
    using tot by simp
  have a1: "addUnit lib (Fin 0) (groupDigits D) 86400 = Fin (?d * 86400)"
    using addUnit_groupDigits[OF assms(2), of 0 86400 lib] bound by simp
  have a2: "addUnit lib (Fin (?d * 86400)) (groupDigits h) 3600 = Fin (?d * 86400 + ?h * 3600)"
    using addUnit_groupDigits[OF assms(3), of "?d * 86400" 3600 lib] bound by simp
  have a3: "addUnit lib (Fin (?d * 86400 + ?h * 3600)) (groupDigits m) 60
              = Fin (?d * 86400 + ?h * 3600 + ?m * 60)"
    using addUnit_groupDigits[OF assms(4), of "?d * 86400 + ?h * 3600" 60 lib] bound by simp
  have a4: "addSeconds lib (Fin (?d * 86400 + ?h * 3600 + ?m * 60)) (groupDigits s)
              = Fin (?d * 86400 + ?h * 3600 + ?m * 60 + ?s)"
    using addSeconds_groupDigits[OF assms(5), of "?d * 86400 + ?h * 3600 + ?m * 60" lib] bound
    by simp
  have sgn: "f64_mul (Fin (?d * 86400 + ?h * 3600 + ?m * 60 + ?s)) (Fin c)
               = Fin (c * int (durationSeconds D h m s))" if "c = 1 \<or> c = - 1" for c
    using that bound tot by (auto simp: f64_of_int_exact)
  have "ParseDurationString lib (durationText sg D h m s) =
          (f64_mul (Fin (?d * 86400 + ?h * 3600 + ?m * 60 + ?s))
             (if [sg] = ''-'' then Fin (- 1) else Fin 1), True)"
    by (simp add: ParseDurationString_def Let_def FindStringSubmatch_durationText[OF assms(1-5)]
        a1 a2 a3 a4)
  also have "\<dots> = (Fin ((if sg = CHR ''-'' then - 1 else 1) * int (durationSeconds D h m s)), True)"
    using assms(1) sgn[of 1] sgn[of "- 1"] by auto
  finally show ?thesis .
qed

lemma duration_ok:
  assumes "sg = CHR ''+'' \<or> sg = CHR ''-''"
    and "groupOK D" and "groupOK h" and "groupOK m" and "groupOK s"
  shows "snd (ParseDurationString lib (durationText sg D h m s)) = True"
  by (simp add: ParseDurationString_def Let_def FindStringSubmatch_durationText[OF assms])

lemmas duration_eval = ParseDurationString_def FindStringSubmatch_def unitGroup_def isDigit_def
  addUnit_def addSeconds_def ParseFloat_def isNumber_def digitsValue_def round53_def
  f64_of_int_def Let_def

lemma rangeError_Some:
  assumes "rangeError g"
  shows "\<exists>ds. g = Some ds \<and> 2 ^ 1024 - 2 ^ 970 \<le> digitsValue ds"
proof (cases g)
  case None
  have "(0::nat) < 2 ^ 1024 - 2 ^ 970" by simp
  with assms None show ?thesis by (simp add: rangeError_def groupValue_def del: power_numeral)
next
  case (Some ds)
  with assms show ?thesis by (simp add: rangeError_def groupValue_def del: power_numeral)
qed

lemma addUnit_range_error:
  assumes "isNumber ds" "2 ^ 1024 - 2 ^ 970 \<le> digitsValue ds"
  shows "addUnit lib t ds k = t"
proof -
  have "ParseFloat lib ds = None"
    using ParseFloat_range_error[OF assms(1)] assms(2) by blast
  then show ?thesis by (simp add: addUnit_def)
qed

lemma addSeconds_range_error:
  assumes "isNumber ds" "2 ^ 1024 - 2 ^ 970 \<le> digitsValue ds"
  shows "addSeconds lib t ds = t"
proof -
  have "ParseFloat lib ds = None"
    using ParseFloat_range_error[OF assms(1)] assms(2) by blast
  then show ?thesis by (simp add: addSeconds_def)
qed

lemma addUnit_counted:
  assumes "groupOK g" "0 \<le> t" "t + int (countedValue g) * k \<le> 2 ^ 53" "1 \<le> k"
  shows "addUnit lib (Fin t) (groupDigits g) k = Fin (t + int (countedValue g) * k)"
proof (cases "rangeError g")
  case True
  from rangeError_Some[OF True] obtain ds
    where ds: "g = Some ds" "2 ^ 1024 - 2 ^ 970 \<le> digitsValue ds" by blast
  have "isNumber ds" using assms(1) ds(1) by (simp add: groupOK_def)
  from addUnit_range_error[OF this ds(2)] True ds(1) show ?thesis
    by (simp add: countedValue_def groupDigits_def)
next
  case False
  then have c: "countedValue g = groupValue g" by (simp add: countedValue_def)
  show ?thesis
    using addUnit_groupDigits[OF assms(1,2) assms(3)[unfolded c] assms(4)] unfolding c .
qed

lemma addSeconds_counted:
  assumes "groupOK g" "0 \<le> t" "t + int (countedValue g) \<le> 2 ^ 53"
  shows "addSeconds lib (Fin t) (groupDigits g) = Fin (t + int (countedValue g))"
proof (cases "rangeError g")
  case True
  from rangeError_Some[OF True] obtain ds
    where ds: "g = Some ds" "2 ^ 1024 - 2 ^ 970 \<le> digitsValue ds" by blast
  have "isNumber ds" using assms(1) ds(1) by (simp add: groupOK_def)
  from addSeconds_range_error[OF this ds(2)] True ds(1) show ?thesis
    by (simp add: countedValue_def groupDigits_def)
next
  case False
  then have c: "countedValue g = groupValue g" by (simp add: countedValue_def)
  show ?thesis
    using addSeconds_groupDigits[OF assms(1,2) assms(3)[unfolded c]] unfolding c .
qed

lemma duration_counted:
  assumes "sg = CHR ''+'' \<or> sg = CHR ''-''"
    and "groupOK D" and "groupOK h" and "groupOK m" and "groupOK s"
    and "countedSeconds D h m s \<le> 2 ^ 53"
  shows "ParseDurationString lib (durationText sg D h m s) =
           (Fin ((if sg = CHR ''-'' then - 1 else 1) * int (countedSeconds D h m s)), True)"
proof -
  let ?d = "int (countedValue D)" and ?h = "int (countedValue h)"
  let ?m = "int (countedValue m)" and ?s = "int (countedValue s)"
  have tot: "int (countedSeconds D h m s) = ?d * 86400 + ?h * 3600 + ?m * 60 + ?s"
    by (simp add: countedSeconds_def)
  have "int (countedSeconds D h m s) \<le> 2 ^ 53"
    using assms(6) by (metis of_nat_le_iff of_nat_numeral of_nat_power)
  then have bound: "?d * 86400 + ?h * 3600 + ?m * 60 + ?s \<le> 2 ^ 53"
    using tot by simp
  have a1: "addUnit lib (Fin 0) (groupDigits D) 86400 = Fin (?d * 86400)"
    using addUnit_counted[OF assms(2), of 0 86400 lib] bound by simp
  have a2: "addUnit lib (Fin (?d * 86400)) (groupDigits h) 3600 = Fin (?d * 86400 + ?h * 3600)"
    using addUnit_counted[OF assms(3), of "?d * 86400" 3600 lib] bound by simp
  have a3: "addUnit lib (Fin (?d * 86400 + ?h * 3600)) (groupDigits m) 60
              = Fin (?d * 86400 + ?h * 3600 + ?m * 60)"
    using addUnit_counted[OF assms(4), of "?d * 86400 + ?h * 3600" 60 lib] bound by simp
  have a4: "addSeconds lib (Fin (?d * 86400 + ?h * 3600 + ?m * 60)) (groupDigits s)
              = Fin (?d * 86400 + ?h * 3600 + ?m * 60 + ?s)"
    using addSeconds_counted[OF assms(5), of "?d * 86400 + ?h * 3600 + ?m * 60" lib] bound
    by simp
  have sgn: "f64_mul (Fin (?d * 86400 + ?h * 3600 + ?m * 60 + ?s)) (Fin c)
               = Fin (c * int (countedSeconds D h m s))" if "c = 1 \<or> c = - 1" for c
    using that bound tot by (auto simp: f64_of_int_exact)
  have "ParseDurationString lib (durationText sg D h m s) =
          (f64_mul (Fin (?d * 86400 + ?h * 3600 + ?m * 60 + ?s))
             (if [sg] = ''-'' then Fin (- 1) else Fin 1), True)"
    by (simp add: ParseDurationString_def Let_def FindStringSubmatch_durationText[OF assms(1-5)]
        a1 a2 a3 a4)
  also have "\<dots> = (Fin ((if sg = CHR ''-'' then - 1 else 1) * int (countedSeconds D h m s)), True)"
    using assms(1) sgn[of 1] sgn[of "- 1"] by auto
  finally show ?thesis .
qed

lemma digitsValue_foldl:
  "foldl (\<lambda>a c. 10 * a + ((of_char c :: nat) - 48)) a (replicate n CHR ''0'') = a * 10 ^ n"
  by (induction n arbitrary: a) simp_all

lemma digitsValue_one_zeros: "digitsValue (CHR ''1'' # replicate n CHR ''0'') = 10 ^ n"
  by (simp add: digitsValue_def digitsValue_foldl)

lemma isNumber_one_zeros: "isNumber (CHR ''1'' # replicate n CHR ''0'')"
  by (simp add: isNumber_def isDigit_def list_all_iff)

lemma big: "(2::nat) ^ 1024 \<le> 10 ^ 309"
  by simp

lemma rangeError_ParseFloat:
  assumes "groupOK g"
  shows "rangeError g = (g \<noteq> None \<and> ParseFloat lib (groupDigits g) = None)"
proof (cases g)
  case None
  have "(0::nat) < 2 ^ 1024 - 2 ^ 970" by simp
  with None show ?thesis by (simp add: rangeError_def groupValue_def del: power_numeral)
next
  case (Some ds)
  then have "isNumber ds" using assms by (simp add: groupOK_def)
  from ParseFloat_range_error[OF this, of lib] Some show ?thesis
    by (simp add: rangeError_def groupValue_def groupDigits_def del: power_numeral)
qed

lemma rangeError_one_zeros: "rangeError (Some (CHR ''1'' # replicate 309 CHR ''0''))"
  by (simp add: rangeError_def groupValue_def digitsValue_one_zeros)

text \<open>
  C2, as amended. For every string of the duration grammar \<^verbatim>\<open>ParseDurationString\<close>
  returns ok = true. When the sum \<open>D * 86400 + h * 3600 + m * 60 + s\<close> is at most \<open>2^53\<close>,
  so that every float64 step is exact, the seconds are this sum, negated when the sign
  is \<open>-\<close>. A group overflows float64 when its value is \<open>2^1024 - 2^970\<close> or more: these
  are exactly the groups on which \<^verbatim>\<open>strconv.ParseFloat\<close> returns an error. Such a group
  is left out and the other groups are still added: when the sum over the groups that
  are counted is at most \<open>2^53\<close>, the seconds are that sum, negated when the sign is \<open>-\<close>.
\<close>

theorem ParseDurationString_grammar:
  assumes "sg = CHR ''+'' \<or> sg = CHR ''-''"
    and "groupOK D" and "groupOK h" and "groupOK m" and "groupOK s"
  shows "snd (ParseDurationString lib (durationText sg D h m s)) = True \<and>
         (durationSeconds D h m s \<le> 2 ^ 53 \<longrightarrow>
            ParseDurationString lib (durationText sg D h m s) =
              (Fin ((if sg = CHR ''-'' then - 1 else 1) * int (durationSeconds D h m s)), True)) \<and>
         list_all (\<lambda>g. rangeError g = (g \<noteq> None \<and> ParseFloat lib (groupDigits g) = None))
           [D, h, m, s] \<and>
         (countedSeconds D h m s \<le> 2 ^ 53 \<longrightarrow>
            ParseDurationString lib (durationText sg D h m s) =
              (Fin ((if sg = CHR ''-'' then - 1 else 1) * int (countedSeconds D h m s)), True))"
  using duration_ok[OF assms] duration_exact[OF assms] duration_counted[OF assms]
    rangeError_ParseFloat[OF assms(2)] rangeError_ParseFloat[OF assms(3)]
    rangeError_ParseFloat[OF assms(4)] rangeError_ParseFloat[OF assms(5)]
  by simp

text \<open>The four examples of the claim, from the theorem: \<open>+1h30m\<close>, \<open>-30m\<close>,
  \<open>+2D5h10m20s\<close> and \<open>-1D12h\<close>; and one day followed by a group of 310 digits for the
  seconds, which is left out.\<close>

theorem ParseDurationString_grammar_witness:
  "ParseDurationString asciiLib ''+1h30m'' = (Fin 5400, True) \<and>
   ParseDurationString asciiLib ''-30m'' = (Fin (- 1800), True) \<and>
   ParseDurationString asciiLib ''+2D5h10m20s'' = (Fin 191420, True) \<and>
   ParseDurationString asciiLib ''-1D12h'' = (Fin (- 129600), True) \<and>
   ParseDurationString asciiLib (''-1D'' @ CHR ''1'' # replicate 309 CHR ''0'' @ ''s'')
     = (Fin (- 86400), True)"
proof -
  let ?big = "CHR ''1'' # replicate 309 CHR ''0''"
  have ok: "groupOK (Some ?big)" by (simp add: groupOK_def isNumber_one_zeros)
  have c: "countedSeconds (Some ''1'') None None (Some ?big) = 86400"
    using rangeError_one_zeros
    by (simp add: countedSeconds_def countedValue_def rangeError_def groupValue_def digitsValue_def)
  have t: "durationText CHR ''-'' (Some ''1'') None None (Some ?big) = ''-1D'' @ ?big @ ''s''"
    by (simp add: durationText_def unitText_def)
  have "ParseDurationString asciiLib (''-1D'' @ ?big @ ''s'') = (Fin (- 86400), True)"
    using ParseDurationString_grammar[of "CHR ''-''" "Some ''1''" None None "Some ?big" asciiLib] ok
    unfolding c t by (simp add: groupOK_def isNumber_def isDigit_def)
  then show ?thesis
    using ParseDurationString_grammar[of "CHR ''+''" None "Some ''1''" "Some ''30''" None asciiLib]
      ParseDurationString_grammar[of "CHR ''-''" None None "Some ''30''" None asciiLib]
      ParseDurationString_grammar[of "CHR ''+''" "Some ''2''" "Some ''5''" "Some ''10''" "Some ''20''" asciiLib]
      ParseDurationString_grammar[of "CHR ''-''" "Some ''1''" "Some ''12''" None None asciiLib]
    by (simp add: durationText_def unitText_def groupOK_def isNumber_def isDigit_def
        durationSeconds_def groupValue_def digitsValue_def)
qed

text \<open>
  C2 as stated fails: a group of 310 digits is a range error of \<^verbatim>\<open>strconv.ParseFloat\<close>,
  the group is logged and left out, and the seconds are 0 where the sum is \<open>10^309\<close>.
\<close>

theorem ParseDurationString_overflow:
  "groupOK (Some (CHR ''1'' # replicate 309 CHR ''0'')) \<and>
   durationSeconds None None None (Some (CHR ''1'' # replicate 309 CHR ''0'')) = 10 ^ 309 \<and>
   ParseDurationString asciiLib
     (durationText CHR ''+'' None None None (Some (CHR ''1'' # replicate 309 CHR ''0'')))
     = (Fin 0, True)"
proof -
  let ?ds = "CHR ''1'' # replicate 309 CHR ''0''"
  have ok: "groupOK (Some ?ds)" by (simp add: groupOK_def isNumber_one_zeros)
  have v: "durationSeconds None None None (Some ?ds) = 10 ^ 309"
    by (simp add: durationSeconds_def groupValue_def digitsValue_one_zeros)
  have "2 ^ 1024 \<le> round53 (digitsValue ?ds)"
    unfolding digitsValue_one_zeros by (rule round53_overflow) (rule big)
  then have pf: "ParseFloat asciiLib ?ds = None"
    using isNumber_one_zeros[of 309] by (simp add: ParseFloat_def Let_def)
  have m: "FindStringSubmatch (durationText CHR ''+'' None None None (Some ?ds)) =
        [durationText CHR ''+'' None None None (Some ?ds), ''+'', [], [], [], [], [], [],
         ?ds @ ''s'', ?ds]"
    using FindStringSubmatch_durationText[of "CHR ''+''" None None None "Some ?ds"] ok
    by (simp add: groupOK_def unitText_def groupDigits_def)
  have "ParseDurationString asciiLib (durationText CHR ''+'' None None None (Some ?ds)) = (Fin 0, True)"
    unfolding ParseDurationString_def m using pf
    by (simp add: Let_def addUnit_def addSeconds_def f64_of_int_def round53_def)
  with ok v show ?thesis by blast
qed

text \<open>Above \<open>2^53\<close> the seconds are rounded: the bound of the theorem is the largest
  one.\<close>

lemma ParseDurationString_rounds:
  "durationSeconds None None None (Some ''9007199254740993'') = 9007199254740993 \<and>
   ParseDurationString lib (durationText CHR ''+'' None None None (Some ''9007199254740993''))
     = (Fin 9007199254740992, True)"
  by (simp add: durationText_def unitText_def durationSeconds_def groupValue_def duration_eval)

lemma FindStringSubmatch_no_unit:
  assumes "isNumber ds"
  shows "FindStringSubmatch (sg # ds) = []"
proof -
  have d: "list_all isDigit ds" and n: "ds \<noteq> []"
    using assms by (simp_all add: isNumber_def)
  show ?thesis
    using n by (simp add: FindStringSubmatch_def unitGroup_all_digits[OF d])
qed

lemma FindStringSubmatch_sign_only:
  assumes "sg = CHR ''+'' \<or> sg = CHR ''-''"
  shows "FindStringSubmatch [sg] = [[sg], [sg], [], [], [], [], [], [], [], []]"
  using assms by (auto simp: FindStringSubmatch_def)

text \<open>
  C3, as amended. A sign followed by digits and no unit letter, such as \<open>+123\<close>, is
  refused (ok = false); a sign alone matches the pattern, all four groups being optional,
  and is accepted with 0 seconds.
\<close>

theorem ParseDurationString_sign_digits:
  assumes "sg = CHR ''+'' \<or> sg = CHR ''-''" and "isNumber ds"
  shows "ParseDurationString lib (sg # ds) = (Fin 0, False) \<and>
         ParseDurationString lib [sg] = (Fin 0, True)"
proof
  show "ParseDurationString lib (sg # ds) = (Fin 0, False)"
    by (simp add: ParseDurationString_def FindStringSubmatch_no_unit[OF assms(2)])
  show "ParseDurationString lib [sg] = (Fin 0, True)"
    unfolding ParseDurationString_def FindStringSubmatch_sign_only[OF assms(1)]
    by (simp add: Let_def f64_of_int_def round53_def)
qed

theorem ParseDurationString_sign_digits_witness:
  "isNumber ''123'' \<and> ParseDurationString asciiLib ''+123'' = (Fin 0, False) \<and>
   ParseDurationString asciiLib ''+'' = (Fin 0, True)"
  using ParseDurationString_sign_digits[of "CHR ''+''" "''123''" asciiLib]
  by (simp add: isNumber_def isDigit_def)

text \<open>C3 as stated fails: \<open>+\<close> and \<open>-\<close> return ok = true.\<close>

theorem ParseDurationString_sign_only_ok:
  "ParseDurationString asciiLib ''+'' = (Fin 0, True) \<and>
   ParseDurationString asciiLib ''-'' = (Fin 0, True)"
  by (simp add: ParseDurationString_def FindStringSubmatch_def Let_def f64_of_int_def round53_def)

subsection \<open>SanitizeMetricName\<close>

lemma ReplaceAll_map: "ReplaceAll s c [d] = map (\<lambda>x. if x = c then d else x) s"
  by (induction s) (simp_all add: ReplaceAll_def)

lemma of_char_asciiLower:
  "(of_char (asciiLower c) :: nat) =
     (if 65 \<le> (of_char c :: nat) \<and> (of_char c :: nat) \<le> 90 then of_char c + 32 else of_char c)"
  by (simp add: asciiLower_def)

lemma asciiLower_idem: "asciiLower (asciiLower c) = asciiLower c"
  by (rule of_char_eqI[where 'a = nat]) (simp add: of_char_asciiLower)

lemma asciiLower_eq_special:
  assumes "(of_char d :: nat) < 65 \<or> 90 < (of_char d :: nat) \<and> (of_char d :: nat) < 97"
  shows "asciiLower x = d \<longleftrightarrow> x = d"
proof -
  have "asciiLower x = d \<longleftrightarrow> (of_char (asciiLower x) :: nat) = of_char d"
    by simp
  also have "\<dots> \<longleftrightarrow> (of_char x :: nat) = of_char d"
    using assms by (auto simp: of_char_asciiLower)
  finally show ?thesis by simp
qed

lemma isASCII_map_asciiLower: "isASCII s \<Longrightarrow> isASCII (map asciiLower s)"
  by (induction s) (auto simp: isASCII_def of_char_asciiLower)

lemma isASCII_ToLower: "isASCII s \<Longrightarrow> isASCII (ToLower lib s)"
  by (simp add: ToLower_def isASCII_map_asciiLower)

lemma isASCII_ReplaceAll:
  assumes "(of_char c :: nat) < 128"
  shows "isASCII (ReplaceAll s c ''_'') = isASCII s"
  using assms by (induction s) (auto simp: ReplaceAll_map isASCII_def)

lemma special_code: "special c \<Longrightarrow> (of_char c :: nat) < 65"
  by (auto simp: special_def)

lemma map_asciiLower_ReplaceAll:
  assumes "special c"
  shows "map asciiLower (ReplaceAll s c ''_'') = ReplaceAll (map asciiLower s) c ''_''"
proof -
  have u: "asciiLower CHR ''_'' = CHR ''_''" by (simp add: asciiLower_def)
  have e: "asciiLower x = c \<longleftrightarrow> x = c" for x
    using special_code[OF assms] by (intro asciiLower_eq_special) simp
  have "map asciiLower (map (\<lambda>x. if x = c then CHR ''_'' else x) s)
          = map (\<lambda>x. if x = c then CHR ''_'' else x) (map asciiLower s)"
    by (induction s) (simp_all add: e u)
  then show ?thesis by (simp add: ReplaceAll_map)
qed

lemma ToLower_ReplaceAll_ascii:
  assumes "isASCII s" "special c"
  shows "ToLower lib (ReplaceAll s c ''_'') = ReplaceAll (ToLower lib s) c ''_''"
proof -
  have lt: "(of_char c :: nat) < 128" using special_code[OF assms(2)] by simp
  have "isASCII (ReplaceAll s c ''_'')"
    using assms(1) by (simp add: isASCII_ReplaceAll[OF lt])
  then show ?thesis
    using assms(1) map_asciiLower_ReplaceAll[OF assms(2)] by (simp add: ToLower_def)
qed

lemma ToLower_ReplaceAll:
  assumes "isASCII s \<or> unicodeLowerLaws lib" "special c"
  shows "ToLower lib (ReplaceAll s c ''_'') = ReplaceAll (ToLower lib s) c ''_''"
proof (cases "isASCII s")
  case True
  then show ?thesis by (rule ToLower_ReplaceAll_ascii[OF _ assms(2)])
next
  case False
  have lt: "(of_char c :: nat) < 128" using special_code[OF assms(2)] by simp
  from False assms(1) have "unicodeLowerLaws lib" by simp
  with False have "list_all (\<lambda>c. toLowerUnicode lib (ReplaceAll s c ''_'') =
                       ReplaceAll (toLowerUnicode lib s) c ''_'') ''- ./+''"
    by (simp add: unicodeLowerLaws_def)
  then have "toLowerUnicode lib (ReplaceAll s c ''_'') = ReplaceAll (toLowerUnicode lib s) c ''_''"
    using assms(2) unfolding special_def list_all_iff by blast
  moreover have "\<not> isASCII (ReplaceAll s c ''_'')"
    using False by (simp add: isASCII_ReplaceAll[OF lt])
  ultimately show ?thesis
    using False by (simp add: ToLower_def)
qed

lemma ToLower_idem:
  assumes "isASCII s \<or> unicodeLowerLaws lib"
  shows "ToLower lib (ToLower lib s) = ToLower lib s"
proof (cases "isASCII s")
  case True
  then show ?thesis
    by (simp add: ToLower_def isASCII_map_asciiLower asciiLower_idem)
next
  case False
  with assms have "ToLower lib (toLowerUnicode lib s) = toLowerUnicode lib s"
    by (simp add: unicodeLowerLaws_def)
  with False show ?thesis by (simp add: ToLower_def)
qed

lemma SanitizeMetricName_eq: "SanitizeMetricName lib name = replaceSpecials (ToLower lib name)"
  by (simp add: SanitizeMetricName_def replaceSpecials_def Let_def)

lemma replaceSpecials_idem: "replaceSpecials (replaceSpecials s) = replaceSpecials s"
  by (induction s) (simp_all add: replaceSpecials_def ReplaceAll_map)

lemma ToLower_replaceSpecials:
  assumes "isASCII s \<or> unicodeLowerLaws lib"
  shows "ToLower lib (replaceSpecials s) = replaceSpecials (ToLower lib s)"
proof -
  have sp: "special CHR ''-''" "special CHR '' ''" "special CHR ''.''" "special CHR ''/''"
    "special CHR ''+''"
    by (simp_all add: special_def)
  have a: "isASCII (ReplaceAll t c ''_'') \<or> unicodeLowerLaws lib"
    if "isASCII t \<or> unicodeLowerLaws lib" "special c" for t c
    using that special_code[of c] by (auto simp: isASCII_ReplaceAll)
  note a1 = a[OF assms sp(1)]
  note a2 = a[OF a1 sp(2)]
  note a3 = a[OF a2 sp(3)]
  note a4 = a[OF a3 sp(4)]
  show ?thesis
    unfolding replaceSpecials_def
    by (simp only: ToLower_ReplaceAll[OF a4 sp(5)] ToLower_ReplaceAll[OF a3 sp(4)]
        ToLower_ReplaceAll[OF a2 sp(3)] ToLower_ReplaceAll[OF a1 sp(2)]
        ToLower_ReplaceAll[OF assms sp(1)])
qed

text \<open>
  C9. \<^verbatim>\<open>SanitizeMetricName\<close> is idempotent: on every ASCII string, and on every other
  string as soon as the Unicode lower-casing of the library obeys \<open>unicodeLowerLaws\<close>;
  and \<open>Zone.Status-Type+Value/Count\<close> becomes \<open>zone_status_type_value_count\<close>.
\<close>

theorem SanitizeMetricName_idempotent:
  assumes "isASCII x \<or> unicodeLowerLaws lib"
  shows "SanitizeMetricName lib (SanitizeMetricName lib x) = SanitizeMetricName lib x \<and>
         SanitizeMetricName lib ''Zone.Status-Type+Value/Count'' = ''zone_status_type_value_count''"
proof
  have t: "isASCII (ToLower lib x) \<or> unicodeLowerLaws lib"
    using assms by (auto simp: isASCII_ToLower)
  have "SanitizeMetricName lib (SanitizeMetricName lib x)
          = replaceSpecials (ToLower lib (replaceSpecials (ToLower lib x)))"
    by (simp add: SanitizeMetricName_eq)
  also have "\<dots> = replaceSpecials (replaceSpecials (ToLower lib (ToLower lib x)))"
    by (simp only: ToLower_replaceSpecials[OF t])
  also have "\<dots> = replaceSpecials (ToLower lib x)"
    by (simp only: replaceSpecials_idem ToLower_idem[OF assms])
  finally show "SanitizeMetricName lib (SanitizeMetricName lib x) = SanitizeMetricName lib x"
    by (simp add: SanitizeMetricName_eq)
  show "SanitizeMetricName lib ''Zone.Status-Type+Value/Count'' = ''zone_status_type_value_count''"
    by (simp add: SanitizeMetricName_def ToLower_def isASCII_def asciiLower_def ReplaceAll_def
        char_of_eq_iff)
qed

lemma unicodeLowerLaws_asciiLib: "unicodeLowerLaws asciiLib"
proof -
  have sp: "special CHR ''-''" "special CHR '' ''" "special CHR ''.''" "special CHR ''/''"
    "special CHR ''+''"
    by (simp_all add: special_def)
  have low: "ToLower asciiLib (map asciiLower s) = map asciiLower s" for s
    by (simp add: ToLower_def asciiLib_def asciiLower_idem)
  have "ToLower asciiLib (toLowerUnicode asciiLib s) = toLowerUnicode asciiLib s" for s
    using low[of s] by (simp add: asciiLib_def)
  moreover have "toLowerUnicode asciiLib (ReplaceAll s c ''_'') =
                   ReplaceAll (toLowerUnicode asciiLib s) c ''_''" if "special c" for s c
    using map_asciiLower_ReplaceAll[OF that] by (simp add: asciiLib_def)
  ultimately show ?thesis
    unfolding unicodeLowerLaws_def using sp by simp
qed

text \<open>The witness: a name with the three bytes of a code point without case (U+65E5),
  an ASCII name, and the example of the claim.\<close>

theorem SanitizeMetricName_idempotent_witness:
  "unicodeLowerLaws asciiLib \<and>
   SanitizeMetricName asciiLib
     (SanitizeMetricName asciiLib [CHR ''Z'', CHR ''.'', CHR 0xE6, CHR 0x97, CHR 0xA5])
     = SanitizeMetricName asciiLib [CHR ''Z'', CHR ''.'', CHR 0xE6, CHR 0x97, CHR 0xA5] \<and>
   SanitizeMetricName asciiLib (SanitizeMetricName asciiLib ''Query.Total'')
     = SanitizeMetricName asciiLib ''Query.Total'' \<and>
   SanitizeMetricName asciiLib ''Zone.Status-Type+Value/Count'' = ''zone_status_type_value_count''"
  using SanitizeMetricName_idempotent[of "[CHR ''Z'', CHR ''.'', CHR 0xE6, CHR 0x97, CHR 0xA5]" asciiLib]
    SanitizeMetricName_idempotent[of "''Query.Total''" asciiLib] unicodeLowerLaws_asciiLib
  by simp

subsection \<open>The descriptor maps\<close>

lemma registryOK_initial: "registryOK lib initialRegistries"
  by (simp add: registryOK_def initialRegistries_def)

lemma getGlobal_hit:
  "globalStatsDescriptors g item = Some d \<Longrightarrow> getGlobalStatsDescriptor lib item g = (d, g)"
  by (simp add: getGlobalStatsDescriptor_def)

lemma getGlobal_miss:
  "globalStatsDescriptors g item = None \<Longrightarrow>
     getGlobalStatsDescriptor lib item g =
       (globalEntry lib (nextDesc g) item,
        g\<lparr> globalStatsDescriptors := (globalStatsDescriptors g)(item \<mapsto> globalEntry lib (nextDesc g) item),
           nextDesc := nextDesc g + 2 \<rparr>)"
  by (simp add: getGlobalStatsDescriptor_def globalEntry_def Let_def)

lemma getZone_hit:
  "zoneStatsDescriptors g item = Some d \<Longrightarrow> getZoneStatsDescriptor lib item g = (d, g)"
  by (simp add: getZoneStatsDescriptor_def)

lemma getZone_miss:
  "zoneStatsDescriptors g item = None \<Longrightarrow>
     getZoneStatsDescriptor lib item g =
       (zoneEntry lib (nextDesc g) item,
        g\<lparr> zoneStatsDescriptors := (zoneStatsDescriptors g)(item \<mapsto> zoneEntry lib (nextDesc g) item),
           nextDesc := nextDesc g + 2 \<rparr>)"
  by (simp add: getZoneStatsDescriptor_def zoneEntry_def Let_def)

lemma getGlobal_entry:
  assumes "registryOK lib g" "getGlobalStatsDescriptor lib item g = (d, g')"
  shows "globalStatsDescriptors g' item = Some d"
    and "\<exists>i. firstDynamicDesc \<le> i \<and> d = globalEntry lib i item"
    and "registryOK lib g'"
    and "\<forall>other. other \<noteq> item \<longrightarrow> globalStatsDescriptors g' other = globalStatsDescriptors g other"
    and "zoneStatsDescriptors g' = zoneStatsDescriptors g"
proof -
  show "globalStatsDescriptors g' item = Some d"
    using assms(2) by (cases "globalStatsDescriptors g item") (auto simp: getGlobal_hit getGlobal_miss)
  show "\<exists>i. firstDynamicDesc \<le> i \<and> d = globalEntry lib i item"
  proof (cases "globalStatsDescriptors g item")
    case None
    then have "d = globalEntry lib (nextDesc g) item"
      using assms(2) by (simp add: getGlobal_miss)
    moreover have "firstDynamicDesc \<le> nextDesc g"
      using assms(1) by (simp add: registryOK_def)
    ultimately show ?thesis by blast
  next
    case (Some a)
    then have "d = a" using assms(2) by (simp add: getGlobal_hit)
    with Some assms(1) show ?thesis unfolding registryOK_def by blast
  qed
  show "registryOK lib g'"
  proof (cases "globalStatsDescriptors g item")
    case None
    have g': "g' = g\<lparr> globalStatsDescriptors := (globalStatsDescriptors g)(item \<mapsto> globalEntry lib (nextDesc g) item),
           nextDesc := nextDesc g + 2 \<rparr>"
      using assms(2) None by (auto simp: getGlobal_miss)
    have n: "firstDynamicDesc \<le> nextDesc g"
      using assms(1) by (simp add: registryOK_def)
    have old: "\<exists>i. firstDynamicDesc \<le> i \<and> i + 2 \<le> nextDesc g + 2 \<and> e = globalEntry lib i it"
      if "globalStatsDescriptors g it = Some e" for it e
    proof -
      from that assms(1) obtain i where "firstDynamicDesc \<le> i" "i + 2 \<le> nextDesc g"
        "e = globalEntry lib i it"
        unfolding registryOK_def by blast
      then show ?thesis by (intro exI[where x = i]) simp
    qed
    have oth: "\<exists>i. firstDynamicDesc \<le> i \<and> i + 2 \<le> nextDesc g + 2 \<and> e = zoneEntry lib i it"
      if "zoneStatsDescriptors g it = Some e" for it e
    proof -
      from that assms(1) obtain i where "firstDynamicDesc \<le> i" "i + 2 \<le> nextDesc g"
        "e = zoneEntry lib i it"
        unfolding registryOK_def by blast
      then show ?thesis by (intro exI[where x = i]) simp
    qed
    have new: "\<exists>i. firstDynamicDesc \<le> i \<and> i + 2 \<le> nextDesc g + 2
                 \<and> globalEntry lib (nextDesc g) item = globalEntry lib i item"
      using n by (intro exI[where x = "nextDesc g"]) simp
    show ?thesis
      unfolding registryOK_def g' using n old oth new
      by (simp del: split_paired_All split_paired_Ex)
  next
    case (Some a)
    then show ?thesis using assms by (simp add: getGlobal_hit)
  qed
  show "\<forall>other. other \<noteq> item \<longrightarrow> globalStatsDescriptors g' other = globalStatsDescriptors g other"
    using assms(2) by (cases "globalStatsDescriptors g item") (auto simp: getGlobal_hit getGlobal_miss)
  show "zoneStatsDescriptors g' = zoneStatsDescriptors g"
    using assms(2) by (cases "globalStatsDescriptors g item") (auto simp: getGlobal_hit getGlobal_miss)
qed

lemma getZone_entry:
  assumes "registryOK lib g" "getZoneStatsDescriptor lib item g = (d, g')"
  shows "zoneStatsDescriptors g' item = Some d"
    and "\<exists>i. firstDynamicDesc \<le> i \<and> d = zoneEntry lib i item"
    and "registryOK lib g'"
    and "\<forall>other. other \<noteq> item \<longrightarrow> zoneStatsDescriptors g' other = zoneStatsDescriptors g other"
    and "globalStatsDescriptors g' = globalStatsDescriptors g"
proof -
  show "zoneStatsDescriptors g' item = Some d"
    using assms(2) by (cases "zoneStatsDescriptors g item") (auto simp: getZone_hit getZone_miss)
  show "\<exists>i. firstDynamicDesc \<le> i \<and> d = zoneEntry lib i item"
  proof (cases "zoneStatsDescriptors g item")
    case None
    then have "d = zoneEntry lib (nextDesc g) item"
      using assms(2) by (simp add: getZone_miss)
    moreover have "firstDynamicDesc \<le> nextDesc g"
      using assms(1) by (simp add: registryOK_def)
    ultimately show ?thesis by blast
  next
    case (Some a)
    then have "d = a" using assms(2) by (simp add: getZone_hit)
    with Some assms(1) show ?thesis unfolding registryOK_def by blast
  qed
  show "registryOK lib g'"
  proof (cases "zoneStatsDescriptors g item")
    case None
    have g': "g' = g\<lparr> zoneStatsDescriptors := (zoneStatsDescriptors g)(item \<mapsto> zoneEntry lib (nextDesc g) item),
           nextDesc := nextDesc g + 2 \<rparr>"
      using assms(2) None by (auto simp: getZone_miss)
    have n: "firstDynamicDesc \<le> nextDesc g"
      using assms(1) by (simp add: registryOK_def)
    have old: "\<exists>i. firstDynamicDesc \<le> i \<and> i + 2 \<le> nextDesc g + 2 \<and> e = zoneEntry lib i it"
      if "zoneStatsDescriptors g it = Some e" for it e
    proof -
      from that assms(1) obtain i where "firstDynamicDesc \<le> i" "i + 2 \<le> nextDesc g"
        "e = zoneEntry lib i it"
        unfolding registryOK_def by blast
      then show ?thesis by (intro exI[where x = i]) simp
    qed
    have oth: "\<exists>i. firstDynamicDesc \<le> i \<and> i + 2 \<le> nextDesc g + 2 \<and> e = globalEntry lib i it"
      if "globalStatsDescriptors g it = Some e" for it e
    proof -
      from that assms(1) obtain i where "firstDynamicDesc \<le> i" "i + 2 \<le> nextDesc g"
        "e = globalEntry lib i it"
        unfolding registryOK_def by blast
      then show ?thesis by (intro exI[where x = i]) simp
    qed
    have new: "\<exists>i. firstDynamicDesc \<le> i \<and> i + 2 \<le> nextDesc g + 2
                 \<and> zoneEntry lib (nextDesc g) item = zoneEntry lib i item"
      using n by (intro exI[where x = "nextDesc g"]) simp
    show ?thesis
      unfolding registryOK_def g' using n old oth new
      by (simp del: split_paired_All split_paired_Ex)
  next
    case (Some a)
    then show ?thesis using assms by (simp add: getZone_hit)
  qed
  show "\<forall>other. other \<noteq> item \<longrightarrow> zoneStatsDescriptors g' other = zoneStatsDescriptors g other"
    using assms(2) by (cases "zoneStatsDescriptors g item") (auto simp: getZone_hit getZone_miss)
  show "globalStatsDescriptors g' = globalStatsDescriptors g"
    using assms(2) by (cases "zoneStatsDescriptors g item") (auto simp: getZone_hit getZone_miss)
qed


lemma fqName_globalEntry:
  "fqName (fst (globalEntry lib i item)) = ''knot_stats'' @ ''_'' @ SanitizeMetricName lib item"
  "fqName (snd (globalEntry lib i item)) = ''knot_stats'' @ ''_'' @ SanitizeMetricName lib item @ ''_total''"
  "variableLabels (fst (globalEntry lib i item)) = [''module'', ''type'']"
  "variableLabels (snd (globalEntry lib i item)) = [''module'', ''type'']"
  by (simp_all add: globalEntry_def makeDescPair_def NewDesc_def)

lemma fqName_zoneEntry:
  "fqName (fst (zoneEntry lib i item)) = ''knot_zone_stats'' @ ''_'' @ SanitizeMetricName lib item"
  "fqName (snd (zoneEntry lib i item)) = ''knot_zone_stats'' @ ''_'' @ SanitizeMetricName lib item @ ''_total''"
  "variableLabels (fst (zoneEntry lib i item)) = [''zone'', ''module'', ''type'']"
  "variableLabels (snd (zoneEntry lib i item)) = [''zone'', ''module'', ''type'']"
  by (simp_all add: zoneEntry_def makeDescPair_def NewDesc_def)

lemma getGlobal_keeps:
  assumes "globalStatsDescriptors g item = Some d"
  shows "globalStatsDescriptors (snd (getGlobalStatsDescriptor lib other g)) item = Some d"
  using assms
  by (cases "globalStatsDescriptors g other") (auto simp: getGlobal_hit getGlobal_miss)

lemma getZone_keeps:
  assumes "zoneStatsDescriptors g item = Some d"
  shows "zoneStatsDescriptors (snd (getZoneStatsDescriptor lib other g)) item = Some d"
  using assms
  by (cases "zoneStatsDescriptors g other") (auto simp: getZone_hit getZone_miss)

text \<open>
  C5. From descriptor maps as the get functions leave them, a get of \<open>item\<close> in either
  map returns a pair \<open>d\<close>; a second get of \<open>item\<close> returns the same pair (the same
  allocations) and changes nothing; the map holds \<open>d\<close> under \<open>item\<close>, keeps its other
  entries and keeps \<open>d\<close> after a later get of any name; and the names of the pair are
  the prefix of the map, an underscore and the sanitized \<open>item\<close>, the second with
  \<open>_total\<close> appended.
\<close>

theorem descriptor_get_twice:
  assumes "registryOK lib g"
    and "getGlobalStatsDescriptor lib item g = (d, g')"
    and "getZoneStatsDescriptor lib item g = (z, h')"
  shows "getGlobalStatsDescriptor lib item g' = (d, g') \<and>
         globalStatsDescriptors g' item = Some d \<and>
         (\<forall>other. other \<noteq> item \<longrightarrow>
            globalStatsDescriptors g' other = globalStatsDescriptors g other) \<and>
         (\<forall>other. globalStatsDescriptors (snd (getGlobalStatsDescriptor lib other g')) item
            = Some d) \<and>
         fqName (fst d) = ''knot_stats'' @ ''_'' @ SanitizeMetricName lib item \<and>
         fqName (snd d) = ''knot_stats'' @ ''_'' @ SanitizeMetricName lib item @ ''_total'' \<and>
         registryOK lib g' \<and>
         getZoneStatsDescriptor lib item h' = (z, h') \<and>
         zoneStatsDescriptors h' item = Some z \<and>
         (\<forall>other. other \<noteq> item \<longrightarrow>
            zoneStatsDescriptors h' other = zoneStatsDescriptors g other) \<and>
         (\<forall>other. zoneStatsDescriptors (snd (getZoneStatsDescriptor lib other h')) item
            = Some z) \<and>
         fqName (fst z) = ''knot_zone_stats'' @ ''_'' @ SanitizeMetricName lib item \<and>
         fqName (snd z) = ''knot_zone_stats'' @ ''_'' @ SanitizeMetricName lib item @ ''_total'' \<and>
         registryOK lib h'"
proof -
  note G = getGlobal_entry[OF assms(1,2)]
  note Z = getZone_entry[OF assms(1,3)]
  from G(2) obtain i where d: "d = globalEntry lib i item" by blast
  from Z(2) obtain j where z: "z = zoneEntry lib j item" by blast
  have g1: "getGlobalStatsDescriptor lib item g' = (d, g')"
    using G(1) by (rule getGlobal_hit)
  have z1: "getZoneStatsDescriptor lib item h' = (z, h')"
    using Z(1) by (rule getZone_hit)
  have g2: "\<forall>other. globalStatsDescriptors (snd (getGlobalStatsDescriptor lib other g')) item
            = Some d"
    using getGlobal_keeps[OF G(1)] by blast
  have z2: "\<forall>other. zoneStatsDescriptors (snd (getZoneStatsDescriptor lib other h')) item
            = Some z"
    using getZone_keeps[OF Z(1)] by blast
  have g3: "fqName (fst d) = ''knot_stats'' @ ''_'' @ SanitizeMetricName lib item"
    "fqName (snd d) = ''knot_stats'' @ ''_'' @ SanitizeMetricName lib item @ ''_total''"
    unfolding d by (rule fqName_globalEntry)+
  have z3: "fqName (fst z) = ''knot_zone_stats'' @ ''_'' @ SanitizeMetricName lib item"
    "fqName (snd z) = ''knot_zone_stats'' @ ''_'' @ SanitizeMetricName lib item @ ''_total''"
    unfolding z by (rule fqName_zoneEntry)+
  show ?thesis
    by (intro conjI) (rule g1 G(1) G(4) g2 g3 G(3) z1 Z(1) Z(4) z2 z3 Z(3))+
qed

lemma get_initial:
  "getGlobalStatsDescriptor asciiLib ''a.b'' initialRegistries =
     (globalEntry asciiLib 15 ''a.b'',
      initialRegistries\<lparr> globalStatsDescriptors := [''a.b'' \<mapsto> globalEntry asciiLib 15 ''a.b''],
                          nextDesc := 17 \<rparr>)"
  "getZoneStatsDescriptor asciiLib ''a.b'' initialRegistries =
     (zoneEntry asciiLib 15 ''a.b'',
      initialRegistries\<lparr> zoneStatsDescriptors := [''a.b'' \<mapsto> zoneEntry asciiLib 15 ''a.b''],
                          nextDesc := 17 \<rparr>)"
  by (simp_all add: getGlobal_miss getZone_miss initialRegistries_def firstDynamicDesc_def)

theorem descriptor_get_twice_witness:
  "registryOK asciiLib initialRegistries \<and>
   getGlobalStatsDescriptor asciiLib ''a.b''
     (snd (getGlobalStatsDescriptor asciiLib ''a.b'' initialRegistries))
     = getGlobalStatsDescriptor asciiLib ''a.b'' initialRegistries \<and>
   getZoneStatsDescriptor asciiLib ''a.b''
     (snd (getZoneStatsDescriptor asciiLib ''a.b'' initialRegistries))
     = getZoneStatsDescriptor asciiLib ''a.b'' initialRegistries \<and>
   fqName (fst (fst (getGlobalStatsDescriptor asciiLib ''a.b'' initialRegistries))) = ''knot_stats_a_b'' \<and>
   fqName (fst (fst (getZoneStatsDescriptor asciiLib ''a.b'' initialRegistries))) = ''knot_zone_stats_a_b''"
  using descriptor_get_twice[OF registryOK_initial get_initial]
    registryOK_initial[of asciiLib]
  by (simp add: get_initial SanitizeMetricName_def ToLower_def isASCII_def asciiLower_def
      ReplaceAll_def)

subsection \<open>Transport errors\<close>

lemma receiveLoop_error:
  assumes "responses ctl (i + n) = Inl err"
    and "\<forall>j<n. continues (responses ctl (i + j))"
    and "n < fuel"
  shows "receiveLoop fuel body ctl i st =
           (Returned (Some err),
            snd (receiveLoop fuel body
                   (ctl\<lparr> responses := (responses ctl)(i + n := Inr (CtlTypeBlock, d)) \<rparr>) i st)) \<and>
         fst (receiveLoop fuel body
                (ctl\<lparr> responses := (responses ctl)(i + n := Inr (CtlTypeBlock, d)) \<rparr>) i st)
           = Returned None"
  using assms
proof (induction n arbitrary: i st fuel)
  case 0
  then obtain f where "fuel = Suc f" by (cases fuel) auto
  with 0 show ?case by simp
next
  case (Suc n)
  then obtain f where f: "fuel = Suc f" "n < f" by (cases fuel) auto
  from Suc.prems(2) have "continues (responses ctl (i + 0))" by blast
  then obtain t r where r: "responses ctl i = Inr (t, r)" "t \<noteq> CtlTypeBlock" "t \<noteq> CtlTypeEnd"
    by (auto simp: continues_def split: sum.splits prod.splits)
  have e: "responses ctl (Suc i + n) = Inl err"
    using Suc.prems(1) by simp
  have c: "\<forall>j<n. continues (responses ctl (Suc i + j))"
  proof (intro allI impI)
    fix j assume "j < n"
    then have "Suc j < Suc n" by simp
    with Suc.prems(2) have "continues (responses ctl (i + Suc j))" by blast
    then show "continues (responses ctl (Suc i + j))" by simp
  qed
  note IH = Suc.IH[OF e c f(2), of "body t r st"]
  show ?case
    using IH r unfolding f(1) by simp
qed

lemma receiveLoop_script:
  assumes "\<forall>j < length rs. responses ctl (i + j) = Inr (rs ! j)"
    and "responses ctl (i + length rs) = Inr (t, d)"
    and "t = CtlTypeBlock \<or> t = CtlTypeEnd"
    and "list_all (\<lambda>r. fst r \<noteq> CtlTypeBlock \<and> fst r \<noteq> CtlTypeEnd) rs"
    and "length rs < fuel"
  shows "receiveLoop fuel body ctl i st =
           (Returned None, foldl (\<lambda>st r. body (fst r) (snd r) st) st rs)"
  using assms
proof (induction rs arbitrary: i st fuel)
  case Nil
  then obtain f where "fuel = Suc f" by (cases fuel) auto
  with Nil show ?case by auto
next
  case (Cons r rs)
  then obtain f where f: "fuel = Suc f" "length rs < f" by (cases fuel) auto
  have r: "responses ctl i = Inr r"
    using Cons.prems(1) by fastforce
  have a: "\<forall>j < length rs. responses ctl (Suc i + j) = Inr (rs ! j)"
  proof (intro allI impI)
    fix j assume "j < length rs"
    then have "Suc j < length (r # rs)" by simp
    with Cons.prems(1) have "responses ctl (i + Suc j) = Inr ((r # rs) ! Suc j)" by blast
    then show "responses ctl (Suc i + j) = Inr (rs ! j)" by simp
  qed
  have b: "responses ctl (Suc i + length rs) = Inr (t, d)"
    using Cons.prems(2) by simp
  have l: "list_all (\<lambda>r. fst r \<noteq> CtlTypeBlock \<and> fst r \<noteq> CtlTypeEnd) rs"
    and nt: "fst r \<noteq> CtlTypeBlock" "fst r \<noteq> CtlTypeEnd"
    using Cons.prems(4) by simp_all
  note IH = Cons.IH[OF a b Cons.prems(3) l f(2), of "body (fst r) (snd r) st"]
  show ?case
    using IH r nt unfolding f(1) by (cases r) simp
qed

lemma receiveLoop_invariant:
  assumes "P st"
    and "\<And>t d s. P s \<Longrightarrow> P (body t d s)"
  shows "P (snd (receiveLoop fuel body ctl i st))"
  using assms(1)
proof (induction fuel arbitrary: i st)
  case 0
  then show ?case by simp
next
  case (Suc fuel)
  show ?case
  proof (cases "responses ctl i")
    case (Inl e)
    then show ?thesis using Suc.prems by simp
  next
    case (Inr r)
    show ?thesis
      using Inr Suc.prems Suc.IH[OF assms(2)[OF Suc.prems]]
      by (cases r) simp
  qed
qed


lemma zoneTimerLoop_error:
  assumes "responses ctl (k + n) = Inl err"
    and "\<forall>j<n. continues (responses ctl (k + j))"
    and "k + n < maxResponses"
  shows "zoneTimerLoop lib ctl k ch =
           (Some err, k + n,
            snd (snd (zoneTimerLoop lib
                   (ctl\<lparr> responses := (responses ctl)(k + n := Inr (CtlTypeBlock, d)) \<rparr>) k ch))) \<and>
         fst (zoneTimerLoop lib
                (ctl\<lparr> responses := (responses ctl)(k + n := Inr (CtlTypeBlock, d)) \<rparr>) k ch)
           = None"
  using assms
proof (induction n arbitrary: k ch)
  case 0
  define ctl' where "ctl' = ctl\<lparr> responses := (responses ctl)(k + 0 := Inr (CtlTypeBlock, d)) \<rparr>"
  have r': "responses ctl' k = Inr (CtlTypeBlock, d)"
    by (simp add: ctl'_def)
  have a: "zoneTimerLoop lib ctl k ch = (Some err, k, ch)"
    using 0 by (subst zoneTimerLoop.simps) simp
  have b: "zoneTimerLoop lib ctl' k ch = (None, k + 1, ch)"
    using 0(3) r' by (subst zoneTimerLoop.simps) simp
  show ?case
    unfolding ctl'_def[symmetric] by (simp add: a b)
next
  case (Suc n)
  define ctl' where "ctl' = ctl\<lparr> responses := (responses ctl)(k + Suc n := Inr (CtlTypeBlock, d)) \<rparr>"
  from Suc.prems(2) have "continues (responses ctl (k + 0))" by blast
  then obtain t r where r: "responses ctl k = Inr (t, r)" "t \<noteq> CtlTypeBlock" "t \<noteq> CtlTypeEnd"
    by (auto simp: continues_def split: sum.splits prod.splits)
  have r': "responses ctl' k = Inr (t, r)"
    using r(1) by (simp add: ctl'_def)
  have e: "responses ctl (Suc k + n) = Inl err"
    using Suc.prems(1) by simp
  have c: "\<forall>j<n. continues (responses ctl (Suc k + j))"
  proof (intro allI impI)
    fix j assume "j < n"
    then have "Suc j < Suc n" by simp
    with Suc.prems(2) have "continues (responses ctl (k + Suc j))" by blast
    then show "continues (responses ctl (Suc k + j))" by simp
  qed
  have b: "Suc k + n < maxResponses" and k: "k < maxResponses"
    using Suc.prems(3) by simp_all
  have u: "ctl\<lparr> responses := (responses ctl)(Suc k + n := Inr (CtlTypeBlock, d)) \<rparr> = ctl'"
    by (simp add: ctl'_def)
  note IH = Suc.IH[OF e c b, of "zoneTimerRecord lib t r ch", unfolded u]
  have a1: "zoneTimerLoop lib ctl k ch = zoneTimerLoop lib ctl (Suc k) (zoneTimerRecord lib t r ch)"
    using r k by (subst zoneTimerLoop.simps) simp
  have a2: "zoneTimerLoop lib ctl' k ch = zoneTimerLoop lib ctl' (Suc k) (zoneTimerRecord lib t r ch)"
    using r' r(2,3) k by (subst zoneTimerLoop.simps) simp
  show ?case
    unfolding ctl'_def[symmetric] using IH by (simp add: a1 a2)
qed

lemma collectZoneTimerInfo_error:
  assumes "sendResult ctl ''zone-read'' (Some ''SOA'') = None"
    and "responses ctl n = Inl err"
    and "\<forall>j<n. continues (responses ctl j)"
    and "n < maxResponses"
  shows "collectZoneTimerInfo lib c ctl ch =
           (Some err, snd (collectZoneTimerInfo lib c (endedAt ctl n) ch)) \<and>
         fst (collectZoneTimerInfo lib c (endedAt ctl n) ch) = None"
  using zoneTimerLoop_error[of ctl 0 n err lib ch noData] assms
  by (simp add: collectZoneTimerInfo_def endedAt_def split_beta)

lemma collectGlobalStats_error:
  assumes "sendResult ctl ''stats'' None = None"
    and "responses ctl n = Inl err"
    and "\<forall>j<n. continues (responses ctl j)"
    and "n < fuel"
  shows "collectGlobalStats fuel lib c ctl st =
           (Returned (Some err), snd (collectGlobalStats fuel lib c (endedAt ctl n) st)) \<and>
         fst (collectGlobalStats fuel lib c (endedAt ctl n) st) = Returned None"
  using receiveLoop_error[of ctl 0 n err fuel "globalStatsRecord lib" st noData] assms
  by (simp add: collectGlobalStats_def endedAt_def)

lemma collectZoneStatistics_error:
  assumes "sendResult ctl ''zone-stats'' None = None"
    and "responses ctl n = Inl err"
    and "\<forall>j<n. continues (responses ctl j)"
    and "n < fuel"
  shows "collectZoneStatistics fuel lib c ctl st =
           (Returned (Some err), snd (collectZoneStatistics fuel lib c (endedAt ctl n) st)) \<and>
         fst (collectZoneStatistics fuel lib c (endedAt ctl n) st) = Returned None"
  using receiveLoop_error[of ctl 0 n err fuel "zoneStatsRecord lib" st noData] assms
  by (simp add: collectZoneStatistics_def endedAt_def)

lemma collectZoneStatusInfo_error:
  assumes "sendResult ctl ''zone-status'' None = None"
    and "responses ctl n = Inl err"
    and "\<forall>j<n. continues (responses ctl j)"
    and "n < fuel"
  shows "collectZoneStatusInfo fuel lib c ctl ch =
           (Returned (Some err), snd (collectZoneStatusInfo fuel lib c (endedAt ctl n) ch)) \<and>
         fst (collectZoneStatusInfo fuel lib c (endedAt ctl n) ch) = Returned None"
  using receiveLoop_error[of ctl 0 n err fuel "zoneStatusRecord lib c" "([], 0, ch)" noData] assms
  by (simp add: collectZoneStatusInfo_def endedAt_def split_beta)

text \<open>
  C6, as amended. A send error ends the phase with nothing sent to the channel: the
  global-statistics, zone-status and zone-statistics phases return the error itself, the
  zone-timer phase returns a new error whose message is
  \<open>zone-read SOA command failed: \<close> followed by the message of the error. A receive
  error at call \<open>n\<close>, after records that are neither BLOCK nor END, ends each of the four
  phases with that error, and the channel is the one of the same run ended by BLOCK at
  call \<open>n\<close>: what was sent before is kept.
\<close>

theorem phase_transport_error:
  "(sendResult ctl ''stats'' None = Some e \<longrightarrow>
      collectGlobalStats fuel lib c ctl st = (Returned (Some e), st)) \<and>
   (sendResult ctl ''zone-status'' None = Some e \<longrightarrow>
      collectZoneStatusInfo fuel lib c ctl ch = (Returned (Some e), ch)) \<and>
   (sendResult ctl ''zone-stats'' None = Some e \<longrightarrow>
      collectZoneStatistics fuel lib c ctl st = (Returned (Some e), st)) \<and>
   (sendResult ctl ''zone-read'' (Some ''SOA'') = Some e \<longrightarrow>
      collectZoneTimerInfo lib c ctl ch =
        (Some (Errorf (''zone-read SOA command failed: '' @ Error e)), ch)) \<and>
   (sendResult ctl ''stats'' None = None \<and> responses ctl n = Inl err \<and>
    (\<forall>j<n. continues (responses ctl j)) \<and> n < fuel \<longrightarrow>
      collectGlobalStats fuel lib c ctl st =
        (Returned (Some err), snd (collectGlobalStats fuel lib c (endedAt ctl n) st)) \<and>
      fst (collectGlobalStats fuel lib c (endedAt ctl n) st) = Returned None) \<and>
   (sendResult ctl ''zone-status'' None = None \<and> responses ctl n = Inl err \<and>
    (\<forall>j<n. continues (responses ctl j)) \<and> n < fuel \<longrightarrow>
      collectZoneStatusInfo fuel lib c ctl ch =
        (Returned (Some err), snd (collectZoneStatusInfo fuel lib c (endedAt ctl n) ch)) \<and>
      fst (collectZoneStatusInfo fuel lib c (endedAt ctl n) ch) = Returned None) \<and>
   (sendResult ctl ''zone-stats'' None = None \<and> responses ctl n = Inl err \<and>
    (\<forall>j<n. continues (responses ctl j)) \<and> n < fuel \<longrightarrow>
      collectZoneStatistics fuel lib c ctl st =
        (Returned (Some err), snd (collectZoneStatistics fuel lib c (endedAt ctl n) st)) \<and>
      fst (collectZoneStatistics fuel lib c (endedAt ctl n) st) = Returned None) \<and>
   (sendResult ctl ''zone-read'' (Some ''SOA'') = None \<and> responses ctl n = Inl err \<and>
    (\<forall>j<n. continues (responses ctl j)) \<and> n < maxResponses \<longrightarrow>
      collectZoneTimerInfo lib c ctl ch =
        (Some err, snd (collectZoneTimerInfo lib c (endedAt ctl n) ch)) \<and>
      fst (collectZoneTimerInfo lib c (endedAt ctl n) ch) = None)"
proof (intro conjI impI)
  assume "sendResult ctl ''stats'' None = Some e"
  then show "collectGlobalStats fuel lib c ctl st = (Returned (Some e), st)"
    by (simp add: collectGlobalStats_def)
next
  assume "sendResult ctl ''zone-status'' None = Some e"
  then show "collectZoneStatusInfo fuel lib c ctl ch = (Returned (Some e), ch)"
    by (simp add: collectZoneStatusInfo_def)
next
  assume "sendResult ctl ''zone-stats'' None = Some e"
  then show "collectZoneStatistics fuel lib c ctl st = (Returned (Some e), st)"
    by (simp add: collectZoneStatistics_def)
next
  assume "sendResult ctl ''zone-read'' (Some ''SOA'') = Some e"
  then show "collectZoneTimerInfo lib c ctl ch =
              (Some (Errorf (''zone-read SOA command failed: '' @ Error e)), ch)"
    by (simp add: collectZoneTimerInfo_def)
next
  assume a: "sendResult ctl ''stats'' None = None \<and> responses ctl n = Inl err \<and>
    (\<forall>j<n. continues (responses ctl j)) \<and> n < fuel"
  then have a': "sendResult ctl ''stats'' None = None" "responses ctl n = Inl err"
    "\<forall>j<n. continues (responses ctl j)" "n < fuel"
    by simp_all
  show "collectGlobalStats fuel lib c ctl st =
          (Returned (Some err), snd (collectGlobalStats fuel lib c (endedAt ctl n) st))"
    and "fst (collectGlobalStats fuel lib c (endedAt ctl n) st) = Returned None"
    using collectGlobalStats_error[OF a'] by simp_all
next
  assume a: "sendResult ctl ''zone-status'' None = None \<and> responses ctl n = Inl err \<and>
    (\<forall>j<n. continues (responses ctl j)) \<and> n < fuel"
  then have a': "sendResult ctl ''zone-status'' None = None" "responses ctl n = Inl err"
    "\<forall>j<n. continues (responses ctl j)" "n < fuel"
    by simp_all
  show "collectZoneStatusInfo fuel lib c ctl ch =
          (Returned (Some err), snd (collectZoneStatusInfo fuel lib c (endedAt ctl n) ch))"
    and "fst (collectZoneStatusInfo fuel lib c (endedAt ctl n) ch) = Returned None"
    using collectZoneStatusInfo_error[OF a'] by simp_all
next
  assume a: "sendResult ctl ''zone-stats'' None = None \<and> responses ctl n = Inl err \<and>
    (\<forall>j<n. continues (responses ctl j)) \<and> n < fuel"
  then have a': "sendResult ctl ''zone-stats'' None = None" "responses ctl n = Inl err"
    "\<forall>j<n. continues (responses ctl j)" "n < fuel"
    by simp_all
  show "collectZoneStatistics fuel lib c ctl st =
          (Returned (Some err), snd (collectZoneStatistics fuel lib c (endedAt ctl n) st))"
    and "fst (collectZoneStatistics fuel lib c (endedAt ctl n) st) = Returned None"
    using collectZoneStatistics_error[OF a'] by simp_all
next
  assume a: "sendResult ctl ''zone-read'' (Some ''SOA'') = None \<and> responses ctl n = Inl err \<and>
    (\<forall>j<n. continues (responses ctl j)) \<and> n < maxResponses"
  then have a': "sendResult ctl ''zone-read'' (Some ''SOA'') = None" "responses ctl n = Inl err"
    "\<forall>j<n. continues (responses ctl j)" "n < maxResponses"
    by simp_all
  show "collectZoneTimerInfo lib c ctl ch =
          (Some err, snd (collectZoneTimerInfo lib c (endedAt ctl n) ch))"
    and "fst (collectZoneTimerInfo lib c (endedAt ctl n) ch) = None"
    using collectZoneTimerInfo_error[OF a'] by simp_all
qed

text \<open>C6 as stated fails in the zone-timer phase: the error it returns after a send
  error is not the error of the transport.\<close>

theorem zoneTimer_send_error_wrapped:
  "collectZoneTimerInfo asciiLib allEnabled (scripted (Some (TransportError ''broken pipe'')) []) []
     = (Some (Errorf ''zone-read SOA command failed: broken pipe''), []) \<and>
   fst (collectZoneTimerInfo asciiLib allEnabled
          (scripted (Some (TransportError ''broken pipe'')) []) [])
     \<noteq> Some (TransportError ''broken pipe'')"
  by (simp add: collectZoneTimerInfo_def scripted_def)


lemmas parse_eval = ParseFloat_def isNumber_def isDigit_def digitsValue_def round53_def Let_def

theorem phase_transport_error_witness:
  "collectGlobalStats (Suc (Suc (Suc 0))) asciiLib allEnabled
     (scripted (Some (TransportError ''broken pipe'')) []) (initialRegistries, [])
     = (Returned (Some (TransportError ''broken pipe'')), initialRegistries, []) \<and>
   fst (collectGlobalStats (Suc (Suc (Suc 0))) asciiLib allEnabled
     (scripted None
        [Inr (CtlTypeData, \<lparr> Section = ''server'', ID = ''udp'', Item = ''query.total'',
                                Zone = [], Data = ''1000'' \<rparr>),
         Inl (TransportError ''connection reset'')])
     (initialRegistries, []))
     = Returned (Some (TransportError ''connection reset'')) \<and>
   length (snd (snd (collectGlobalStats (Suc (Suc (Suc 0))) asciiLib allEnabled
     (scripted None
        [Inr (CtlTypeData, \<lparr> Section = ''server'', ID = ''udp'', Item = ''query.total'',
                                Zone = [], Data = ''1000'' \<rparr>),
         Inl (TransportError ''connection reset'')])
     (initialRegistries, [])))) = 2"
  using phase_transport_error[where ctl = "scripted (Some (TransportError ''broken pipe'')) []"
      and n = 0 and err = "TransportError ''timeout''" and fuel = "Suc (Suc (Suc 0))"
      and e = "TransportError ''broken pipe''" and lib = asciiLib and c = allEnabled
      and st = "(initialRegistries, [])" and ch = "[]"]
    phase_transport_error[where ctl = "scripted None
        [Inr (CtlTypeData, \<lparr> Section = ''server'', ID = ''udp'', Item = ''query.total'',
                                Zone = [], Data = ''1000'' \<rparr>),
         Inl (TransportError ''connection reset'')]"
      and n = 1 and err = "TransportError ''connection reset''" and fuel = "Suc (Suc (Suc 0))"
      and e = "TransportError ''broken pipe''" and lib = asciiLib and c = allEnabled
      and st = "(initialRegistries, [])" and ch = "[]"]
  by (simp add: scripted_def maxResponses_def continues_def collectGlobalStats_def endedAt_def
      globalStatsRecord_def getGlobalStatsDescriptor_def initialRegistries_def sendMetrics_def
      parse_eval)

subsection \<open>The bound of the zone-timer loop\<close>

lemma zoneTimerLoop_stop:
  "\<not> k < maxResponses \<Longrightarrow> zoneTimerLoop lib ctl k ch = (None, k, ch)"
  by (subst zoneTimerLoop.simps) simp

lemma zoneTimerLoop_Inl:
  "k < maxResponses \<Longrightarrow> responses ctl k = Inl e \<Longrightarrow>
     zoneTimerLoop lib ctl k ch = (Some e, k, ch)"
  by (subst zoneTimerLoop.simps) simp

lemma zoneTimerLoop_end:
  "k < maxResponses \<Longrightarrow> responses ctl k = Inr (t, d) \<Longrightarrow> t = CtlTypeBlock \<or> t = CtlTypeEnd \<Longrightarrow>
     zoneTimerLoop lib ctl k ch = (None, k + 1, ch)"
  by (subst zoneTimerLoop.simps) auto

lemma zoneTimerLoop_step:
  "k < maxResponses \<Longrightarrow> responses ctl k = Inr (t, d) \<Longrightarrow> t \<noteq> CtlTypeBlock \<Longrightarrow> t \<noteq> CtlTypeEnd \<Longrightarrow>
     zoneTimerLoop lib ctl k ch = zoneTimerLoop lib ctl (k + 1) (zoneTimerRecord lib t d ch)"
  by (subst zoneTimerLoop.simps) simp

lemma zoneTimerLoop_count_le:
  "k \<le> maxResponses \<Longrightarrow> fst (snd (zoneTimerLoop lib ctl k ch)) \<le> maxResponses"
proof (induction "maxResponses - k" arbitrary: k ch)
  case 0
  then show ?case by (simp add: zoneTimerLoop_stop)
next
  case (Suc n)
  then have k: "k < maxResponses" and n: "n = maxResponses - (k + 1)" and k1: "k + 1 \<le> maxResponses"
    by simp_all
  show ?case
  proof (cases "responses ctl k")
    case (Inl e)
    with k show ?thesis by (simp add: zoneTimerLoop_Inl)
  next
    case (Inr r)
    obtain t d where r: "responses ctl k = Inr (t, d)" using Inr by (cases r) simp
    show ?thesis
    proof (cases "t = CtlTypeBlock \<or> t = CtlTypeEnd")
      case True
      with k r show ?thesis by (simp add: zoneTimerLoop_end)
    next
      case False
      then show ?thesis
        using Suc.hyps(1)[OF n k1] k r by (simp add: zoneTimerLoop_step)
    qed
  qed
qed

lemma zoneTimerLoop_runs_out:
  assumes "\<forall>j<maxResponses. continues (responses ctl j)"
  shows "k \<le> maxResponses \<Longrightarrow>
         fst (zoneTimerLoop lib ctl k ch) = None \<and>
         fst (snd (zoneTimerLoop lib ctl k ch)) = maxResponses"
proof (induction "maxResponses - k" arbitrary: k ch)
  case 0
  then show ?case by (simp add: zoneTimerLoop_stop)
next
  case (Suc n)
  then have k: "k < maxResponses" and n: "n = maxResponses - (k + 1)" and k1: "k + 1 \<le> maxResponses"
    by simp_all
  from assms k have "continues (responses ctl k)" by blast
  then obtain t d where r: "responses ctl k = Inr (t, d)" "t \<noteq> CtlTypeBlock" "t \<noteq> CtlTypeEnd"
    by (auto simp: continues_def split: sum.splits prod.splits)
  show ?case
    using Suc.hyps(1)[OF n k1] k r by (simp add: zoneTimerLoop_step)
qed

lemma zoneTimerLoop_cong:
  assumes "\<forall>j<maxResponses. responses ctl' j = responses ctl j"
  shows "zoneTimerLoop lib ctl' k ch = zoneTimerLoop lib ctl k ch"
proof (induction "maxResponses - k" arbitrary: k ch)
  case 0
  then show ?case by (simp add: zoneTimerLoop_stop)
next
  case (Suc n)
  then have k: "k < maxResponses" and n: "n = maxResponses - (k + 1)"
    by simp_all
  from assms k have e: "responses ctl' k = responses ctl k" by blast
  show ?case
  proof (cases "responses ctl k")
    case (Inl err)
    with k e show ?thesis by (simp add: zoneTimerLoop_Inl)
  next
    case (Inr r)
    obtain t d where r: "responses ctl k = Inr (t, d)" using Inr by (cases r) simp
    show ?thesis
    proof (cases "t = CtlTypeBlock \<or> t = CtlTypeEnd")
      case True
      with k r e show ?thesis by (simp add: zoneTimerLoop_end)
    next
      case False
      then show ?thesis
        using Suc.hyps(1)[OF n] k r e by (simp add: zoneTimerLoop_step)
    qed
  qed
qed

text \<open>
  C8. The zone-timer loop makes at most 100000 receive calls: its count never passes
  100000, the phase does not depend on what the transport would return from call 100000
  on, and against a transport that never sends BLOCK or END and never fails the phase
  stops after exactly 100000 records and returns no error. (The loop is a total function:
  its recursion is bounded by \<open>maxResponses - count\<close>.)
\<close>

theorem zoneTimer_bounded:
  "fst (snd (zoneTimerLoop lib ctl 0 ch)) \<le> 100000 \<and>
   ((\<forall>j<100000. responses ctl' j = responses ctl j) \<and> sendResult ctl' = sendResult ctl \<longrightarrow>
      collectZoneTimerInfo lib c ctl' ch = collectZoneTimerInfo lib c ctl ch) \<and>
   ((\<forall>j<100000. continues (responses ctl j)) \<and>
    sendResult ctl ''zone-read'' (Some ''SOA'') = None \<longrightarrow>
      fst (collectZoneTimerInfo lib c ctl ch) = None \<and>
      fst (snd (zoneTimerLoop lib ctl 0 ch)) = 100000)"
proof (intro conjI impI)
  show "fst (snd (zoneTimerLoop lib ctl 0 ch)) \<le> 100000"
    using zoneTimerLoop_count_le[of 0 lib ctl ch] by (simp add: maxResponses_def)
next
  assume a: "(\<forall>j<100000. responses ctl' j = responses ctl j) \<and> sendResult ctl' = sendResult ctl"
  then have "\<forall>j<maxResponses. responses ctl' j = responses ctl j"
    by (simp add: maxResponses_def)
  from zoneTimerLoop_cong[OF this, of lib 0 ch] a
  show "collectZoneTimerInfo lib c ctl' ch = collectZoneTimerInfo lib c ctl ch"
    by (simp add: collectZoneTimerInfo_def split: option.splits)
next
  assume a: "(\<forall>j<100000. continues (responses ctl j)) \<and>
    sendResult ctl ''zone-read'' (Some ''SOA'') = None"
  then have "\<forall>j<maxResponses. continues (responses ctl j)"
    by (simp add: maxResponses_def)
  from zoneTimerLoop_runs_out[OF this, of 0 lib ch] a
  show "fst (collectZoneTimerInfo lib c ctl ch) = None"
    and "fst (snd (zoneTimerLoop lib ctl 0 ch)) = 100000"
    by (simp_all add: collectZoneTimerInfo_def split_beta maxResponses_def)
qed

theorem zoneTimer_bounded_witness:
  "fst (collectZoneTimerInfo asciiLib allEnabled endless []) = None \<and>
   fst (snd (zoneTimerLoop asciiLib endless 0 [])) = 100000"
  using zoneTimer_bounded[of asciiLib endless "[]" endless allEnabled]
  by (simp add: endless_def continues_def)

subsection \<open>The zone-status phase\<close>

lemma zoneStatusRecord_extra_no_zone:
  "zoneStatusRecord lib c CtlTypeExtra data ([], idx, ch) = ([], idx, ch)"
  by (simp add: zoneStatusRecord_def)

lemma zoneStatusRecord_data_same_zone:
  "Zone data = [] \<or> Zone data = currentZone \<Longrightarrow>
     zoneStatusRecord lib c CtlTypeData data (currentZone, idx, ch) = (currentZone, idx, ch)"
  by (auto simp: zoneStatusRecord_def)

lemma receiveLoop_zoneless:
  assumes "\<forall>j<n. zoneless (responses ctl (i + j))"
    and "responses ctl (i + n) = Inr (CtlTypeBlock, b)"
    and "n < fuel"
  shows "receiveLoop fuel (zoneStatusRecord lib c) ctl i ([], idx, ch) = (Returned None, [], idx, ch)"
  using assms
proof (induction n arbitrary: i fuel)
  case 0
  then obtain f where "fuel = Suc f" by (cases fuel) auto
  with 0 show ?case by simp
next
  case (Suc n)
  then obtain f where f: "fuel = Suc f" "n < f" by (cases fuel) auto
  from Suc.prems(1) have "zoneless (responses ctl (i + 0))" by blast
  then obtain t d where r: "responses ctl i = Inr (t, d)"
    "t = CtlTypeExtra \<or> (t = CtlTypeData \<and> Zone d = [])"
    by (auto simp: zoneless_def split: sum.splits prod.splits)
  have s: "zoneStatusRecord lib c t d ([], idx, ch) = ([], idx, ch)"
    using r(2) zoneStatusRecord_extra_no_zone[of lib c d idx ch]
      zoneStatusRecord_data_same_zone[of d "[]" lib c idx ch] by auto
  have e: "responses ctl (Suc i + n) = Inr (CtlTypeBlock, b)"
    using Suc.prems(2) by simp
  have z: "\<forall>j<n. zoneless (responses ctl (Suc i + j))"
  proof (intro allI impI)
    fix j assume "j < n"
    then have "Suc j < Suc n" by simp
    with Suc.prems(1) have "zoneless (responses ctl (i + Suc j))" by blast
    then show "zoneless (responses ctl (Suc i + j))" by simp
  qed
  show ?case
    using Suc.IH[OF z e f(2)] r s unfolding f(1) by auto
qed

text \<open>
  C10. In the zone-status phase an EXTRA record received while the current zone is empty
  changes nothing: no index advance, no observation. A DATA record whose zone field is
  empty or equal to the current zone changes nothing either: no new zone, no reset of
  the index. So a response of such records only, up to BLOCK, gives zero observations.
\<close>

theorem zoneStatus_needs_zone:
  "zoneStatusRecord lib c CtlTypeExtra data ([], idx, ch) = ([], idx, ch) \<and>
   (Zone data = [] \<or> Zone data = currentZone \<longrightarrow>
      zoneStatusRecord lib c CtlTypeData data (currentZone, idx, ch) = (currentZone, idx, ch)) \<and>
   (sendResult ctl ''zone-status'' None = None \<and> (\<forall>j<n. zoneless (responses ctl j)) \<and>
    responses ctl n = Inr (CtlTypeBlock, b) \<and> n < fuel \<longrightarrow>
      collectZoneStatusInfo fuel lib c ctl ch = (Returned None, ch))"
proof (intro conjI impI)
  show "zoneStatusRecord lib c CtlTypeExtra data ([], idx, ch) = ([], idx, ch)"
    by (rule zoneStatusRecord_extra_no_zone)
next
  assume "Zone data = [] \<or> Zone data = currentZone"
  then show "zoneStatusRecord lib c CtlTypeData data (currentZone, idx, ch) = (currentZone, idx, ch)"
    by (rule zoneStatusRecord_data_same_zone)
next
  assume a: "sendResult ctl ''zone-status'' None = None \<and> (\<forall>j<n. zoneless (responses ctl j)) \<and>
    responses ctl n = Inr (CtlTypeBlock, b) \<and> n < fuel"
  then have "receiveLoop fuel (zoneStatusRecord lib c) ctl 0 ([], 0, ch) = (Returned None, [], 0, ch)"
    by (intro receiveLoop_zoneless[where n = n and b = b]) simp_all
  with a show "collectZoneStatusInfo fuel lib c ctl ch = (Returned None, ch)"
    by (simp add: collectZoneStatusInfo_def)
qed

theorem zoneStatus_needs_zone_witness:
  "zoneStatusRecord asciiLib allEnabled CtlTypeExtra (noData\<lparr> Data := ''2023101801'' \<rparr>) ([], 0, [])
     = ([], 0, []) \<and>
   zoneStatusRecord asciiLib allEnabled CtlTypeData (noData\<lparr> Zone := ''example.com'' \<rparr>)
     (''example.com'', 3, []) = (''example.com'', 3, []) \<and>
   collectZoneStatusInfo 5 asciiLib allEnabled
     (scripted None [Inr (CtlTypeExtra, noData\<lparr> Data := ''2023101801'' \<rparr>),
                     Inr (CtlTypeData, noData\<lparr> Data := ''+1h30m'' \<rparr>),
                     Inr (CtlTypeBlock, noData)]) []
     = (Returned None, [])"
  using zoneStatus_needs_zone[where lib = asciiLib and c = allEnabled
      and data = "noData\<lparr> Data := ''2023101801'' \<rparr>" and idx = 0 and ch = "[]"
      and currentZone = "[]" and ctl = "scripted None []" and n = 0 and b = noData and fuel = 0]
    zoneStatus_needs_zone[where lib = asciiLib and c = allEnabled
      and data = "noData\<lparr> Zone := ''example.com'' \<rparr>" and idx = 3 and ch = "[]"
      and currentZone = "''example.com''"
      and ctl = "scripted None [Inr (CtlTypeExtra, noData\<lparr> Data := ''2023101801'' \<rparr>),
                     Inr (CtlTypeData, noData\<lparr> Data := ''+1h30m'' \<rparr>),
                     Inr (CtlTypeBlock, noData)]" and n = 2 and b = noData and fuel = 5]
  by (simp add: scripted_def zoneless_def noData_def less_Suc_eq numeral_2_eq_2)

lemma answers_script:
  assumes "answers ctl (rs @ [(t, d)])"
    and "t = CtlTypeBlock \<or> t = CtlTypeEnd"
    and "list_all (\<lambda>r. fst r \<noteq> CtlTypeBlock \<and> fst r \<noteq> CtlTypeEnd) rs"
    and "length rs < fuel"
  shows "receiveLoop fuel body ctl 0 st =
           (Returned None, foldl (\<lambda>st r. body (fst r) (snd r) st) st rs)"
proof -
  have a: "\<forall>j < length rs. responses ctl (0 + j) = Inr (rs ! j)"
  proof (intro allI impI)
    fix j assume j: "j < length rs"
    then have "j < length (rs @ [(t, d)])" by simp
    with assms(1) have "responses ctl j = Inr ((rs @ [(t, d)]) ! j)"
      unfolding answers_def by blast
    with j show "responses ctl (0 + j) = Inr (rs ! j)" by (simp add: nth_append)
  qed
  have "length rs < length (rs @ [(t, d)])" by simp
  with assms(1) have "responses ctl (length rs) = Inr ((rs @ [(t, d)]) ! length rs)"
    unfolding answers_def by blast
  then have b: "responses ctl (0 + length rs) = Inr (t, d)" by simp
  show ?thesis
    by (rule receiveLoop_script[OF a b assms(2,3,4)])
qed

lemma convertStateTime_examples:
  "convertStateTime lib ''+1h30m'' = Some (Fin 5400)"
  "convertStateTime lib ''+30D'' = Some (Fin 2592000)"
  by (simp_all add: convertStateTime_def IsPrefixIn_def duration_eval)

lemma ParseFloat_serial: "ParseFloat lib ''2023101801'' = Some (Fin 2023101801)"
  by (simp add: parse_eval)

lemma zoneStatusRecord_data_new:
  "Zone data \<noteq> [] \<Longrightarrow> Zone data \<noteq> cz \<Longrightarrow>
     zoneStatusRecord lib c CtlTypeData data (cz, idx, ch) = (Zone data, 0, ch)"
  by (simp add: zoneStatusRecord_def)

lemma zoneStatusRecord_extra_other:
  "cz \<noteq> [] \<Longrightarrow> idx \<noteq> 0 \<Longrightarrow> idx \<noteq> 6 \<Longrightarrow> idx \<noteq> 8 \<Longrightarrow>
     zoneStatusRecord lib c CtlTypeExtra data (cz, idx, ch) = (cz, Suc idx, ch)"
  by (simp add: zoneStatusRecord_def Let_def)

lemma zoneStatusRecord_extra_serial:
  "cz \<noteq> [] \<Longrightarrow> collectZoneSerial c \<Longrightarrow> ParseFloat lib (Data data) = Some v \<Longrightarrow>
     zoneStatusRecord lib c CtlTypeExtra data (cz, 0, ch) = (cz, 1, sendMetrics ch zoneSerialDesc v [cz])"
  by (simp add: zoneStatusRecord_def Let_def)

lemma zoneStatusRecord_extra_refresh:
  "cz \<noteq> [] \<Longrightarrow> collectZoneStatus c \<Longrightarrow> Data data \<noteq> [] \<Longrightarrow> Data data \<noteq> ''-'' \<Longrightarrow>
   convertStateTime lib (Data data) = Some v \<Longrightarrow>
     zoneStatusRecord lib c CtlTypeExtra data (cz, 6, ch)
       = (cz, 7, sendMetrics ch zoneStatusRefreshDesc v [cz])"
  by (simp add: zoneStatusRecord_def Let_def)

lemma zoneStatusRecord_extra_expiration:
  "cz \<noteq> [] \<Longrightarrow> collectZoneStatus c \<Longrightarrow> Data data \<noteq> [] \<Longrightarrow> Data data \<noteq> ''-'' \<Longrightarrow>
   convertStateTime lib (Data data) = Some v \<Longrightarrow>
     zoneStatusRecord lib c CtlTypeExtra data (cz, 8, ch)
       = (cz, 9, sendMetrics ch zoneStatusExpirationDesc v [cz])"
  by (simp add: zoneStatusRecord_def Let_def)

text \<open>
  C1. Zone-status phase with serial and zone-status collection enabled: a DATA record for
  zone \<open>example.com\<close>, nine EXTRA records with \<open>2023101801\<close> at index 1, \<open>+1h30m\<close> at
  index 7 and \<open>+30D\<close> at index 9 (the other six are arbitrary), then BLOCK. The phase
  returns no error and sends exactly 6 observations: serial 2023101801, refresh 5400 and
  expiration 2592000, each as gauge and counter, labelled with the zone.
\<close>

theorem zoneStatus_example:
  assumes "sendResult ctl ''zone-status'' None = None"
    and "answers ctl [(CtlTypeData, d0), (CtlTypeExtra, e1), (CtlTypeExtra, e2),
           (CtlTypeExtra, e3), (CtlTypeExtra, e4), (CtlTypeExtra, e5), (CtlTypeExtra, e6),
           (CtlTypeExtra, e7), (CtlTypeExtra, e8), (CtlTypeExtra, e9), (CtlTypeBlock, b)]"
    and "Zone d0 = ''example.com''"
    and "Data e1 = ''2023101801''" and "Data e7 = ''+1h30m''" and "Data e9 = ''+30D''"
    and "collectZoneSerial c" and "collectZoneStatus c"
    and "11 \<le> fuel"
  shows "collectZoneStatusInfo fuel lib c ctl ch =
           (Returned None,
            ch @ [gauge zoneSerialDesc (Fin 2023101801) ''example.com'',
                  counter zoneSerialDesc (Fin 2023101801) ''example.com'',
                  gauge zoneStatusRefreshDesc (Fin 5400) ''example.com'',
                  counter zoneStatusRefreshDesc (Fin 5400) ''example.com'',
                  gauge zoneStatusExpirationDesc (Fin 2592000) ''example.com'',
                  counter zoneStatusExpirationDesc (Fin 2592000) ''example.com''])"
proof -
  let ?rs = "[(CtlTypeData, d0), (CtlTypeExtra, e1), (CtlTypeExtra, e2),
           (CtlTypeExtra, e3), (CtlTypeExtra, e4), (CtlTypeExtra, e5), (CtlTypeExtra, e6),
           (CtlTypeExtra, e7), (CtlTypeExtra, e8), (CtlTypeExtra, e9)]"
  have a: "answers ctl (?rs @ [(CtlTypeBlock, b)])"
    using assms(2) by simp
  have l: "length ?rs < fuel" using assms(9) by simp
  have "receiveLoop fuel (zoneStatusRecord lib c) ctl 0 ([], 0, ch) =
          (Returned None,
           foldl (\<lambda>st r. zoneStatusRecord lib c (fst r) (snd r) st) ([], 0, ch) ?rs)"
    by (rule answers_script[OF a _ _ l]) simp_all
  also have "foldl (\<lambda>st r. zoneStatusRecord lib c (fst r) (snd r) st) ([], 0, ch) ?rs =
          (''example.com'', 9,
            ch @ [gauge zoneSerialDesc (Fin 2023101801) ''example.com'',
                  counter zoneSerialDesc (Fin 2023101801) ''example.com'',
                  gauge zoneStatusRefreshDesc (Fin 5400) ''example.com'',
                  counter zoneStatusRefreshDesc (Fin 5400) ''example.com'',
                  gauge zoneStatusExpirationDesc (Fin 2592000) ''example.com'',
                  counter zoneStatusExpirationDesc (Fin 2592000) ''example.com''])"
  proof -
    have s0: "zoneStatusRecord lib c CtlTypeData d0 ([], 0, ch) = (''example.com'', 0, ch)"
      using assms(3) by (simp add: zoneStatusRecord_data_new)
    have s1: "zoneStatusRecord lib c CtlTypeExtra e1 (''example.com'', 0, ch1)
                = (''example.com'', Suc 0, sendMetrics ch1 zoneSerialDesc (Fin 2023101801) [''example.com''])"
      for ch1
      using assms(4,7) by (simp add: zoneStatusRecord_extra_serial ParseFloat_serial)
    have s7: "zoneStatusRecord lib c CtlTypeExtra e7 (''example.com'', idx, ch1)
                = (''example.com'', Suc idx, sendMetrics ch1 zoneStatusRefreshDesc (Fin 5400) [''example.com''])"
      if "idx = 6" for ch1 idx
      using assms(5,8) that by (simp add: zoneStatusRecord_extra_refresh convertStateTime_examples)
    have s9: "zoneStatusRecord lib c CtlTypeExtra e9 (''example.com'', idx, ch1)
                = (''example.com'', Suc idx, sendMetrics ch1 zoneStatusExpirationDesc (Fin 2592000) [''example.com''])"
      if "idx = 8" for ch1 idx
      using assms(6,8) that by (simp add: zoneStatusRecord_extra_expiration convertStateTime_examples)
    show ?thesis
      by (simp add: s0 s1 s7 s9 zoneStatusRecord_extra_other sendMetrics_def gauge_def counter_def)
  qed
  finally show ?thesis
    using assms(1) by (simp add: collectZoneStatusInfo_def)
qed


lemma answers_scripted: "answers (scripted s (map Inr rs)) rs"
  by (simp add: answers_def scripted_def)

theorem zoneStatus_example_witness:
  "collectZoneStatusInfo 20 asciiLib allEnabled
     (scripted None (map Inr
        [(CtlTypeData, noData\<lparr> Zone := ''example.com'' \<rparr>),
         (CtlTypeExtra, noData\<lparr> Data := ''2023101801'' \<rparr>),
         (CtlTypeExtra, noData\<lparr> Data := ''dummy'' \<rparr>),
         (CtlTypeExtra, noData\<lparr> Data := ''dummy'' \<rparr>),
         (CtlTypeExtra, noData\<lparr> Data := ''dummy'' \<rparr>),
         (CtlTypeExtra, noData\<lparr> Data := ''dummy'' \<rparr>),
         (CtlTypeExtra, noData\<lparr> Data := ''dummy'' \<rparr>),
         (CtlTypeExtra, noData\<lparr> Data := ''+1h30m'' \<rparr>),
         (CtlTypeExtra, noData\<lparr> Data := ''dummy'' \<rparr>),
         (CtlTypeExtra, noData\<lparr> Data := ''+30D'' \<rparr>),
         (CtlTypeBlock, noData)])) []
     = (Returned None,
        [gauge zoneSerialDesc (Fin 2023101801) ''example.com'',
         counter zoneSerialDesc (Fin 2023101801) ''example.com'',
         gauge zoneStatusRefreshDesc (Fin 5400) ''example.com'',
         counter zoneStatusRefreshDesc (Fin 5400) ''example.com'',
         gauge zoneStatusExpirationDesc (Fin 2592000) ''example.com'',
         counter zoneStatusExpirationDesc (Fin 2592000) ''example.com''])"
  using zoneStatus_example[OF _ answers_scripted[where s = None], where lib = asciiLib
      and c = allEnabled and fuel = 20 and ch = "[]"]
  by (simp add: scripted_def allEnabled_def noData_def)

subsection \<open>The zone-timer phase\<close>






subsection \<open>Collect\<close>

lemma clean_refl: "clean base base"
  by (simp add: clean_def)

lemma clean_sendMetrics:
  assumes "clean base ch" "fst d \<noteq> buildInfoDesc" "snd d \<noteq> buildInfoDesc"
  shows "clean base (sendMetrics ch d v ls)"
proof -
  from assms(1) obtain rest where r: "ch = base @ rest" "list_all (\<lambda>m. desc m \<noteq> buildInfoDesc) rest"
    unfolding clean_def by blast
  let ?new = "[\<lparr> desc = fst d, valueType = GaugeValue, val = v, labelValues = ls \<rparr>,
               \<lparr> desc = snd d, valueType = CounterValue, val = v, labelValues = ls \<rparr>]"
  have "sendMetrics ch d v ls = base @ (rest @ ?new)"
    using r(1) by (simp add: sendMetrics_def)
  moreover have "list_all (\<lambda>m. desc m \<noteq> buildInfoDesc) (rest @ ?new)"
    using r(2) assms(2,3) by simp
  ultimately show ?thesis unfolding clean_def by blast
qed

lemma static_not_buildInfo:
  "fst memoryUsageDesc \<noteq> buildInfoDesc" "snd memoryUsageDesc \<noteq> buildInfoDesc"
  "fst zoneSerialDesc \<noteq> buildInfoDesc" "snd zoneSerialDesc \<noteq> buildInfoDesc"
  "fst zoneRefreshDesc \<noteq> buildInfoDesc" "snd zoneRefreshDesc \<noteq> buildInfoDesc"
  "fst zoneRetryDesc \<noteq> buildInfoDesc" "snd zoneRetryDesc \<noteq> buildInfoDesc"
  "fst zoneExpirationDesc \<noteq> buildInfoDesc" "snd zoneExpirationDesc \<noteq> buildInfoDesc"
  "fst zoneStatusExpirationDesc \<noteq> buildInfoDesc" "snd zoneStatusExpirationDesc \<noteq> buildInfoDesc"
  "fst zoneStatusRefreshDesc \<noteq> buildInfoDesc" "snd zoneStatusRefreshDesc \<noteq> buildInfoDesc"
  by (simp_all add: memoryUsageDesc_def zoneSerialDesc_def zoneRefreshDesc_def zoneRetryDesc_def
      zoneExpirationDesc_def zoneStatusExpirationDesc_def zoneStatusRefreshDesc_def
      buildInfoDesc_def makeDescPair_def NewDesc_def)

lemma dynamic_not_buildInfo:
  assumes "firstDynamicDesc \<le> i"
  shows "fst (globalEntry lib i item) \<noteq> buildInfoDesc" "snd (globalEntry lib i item) \<noteq> buildInfoDesc"
    "fst (zoneEntry lib i item) \<noteq> buildInfoDesc" "snd (zoneEntry lib i item) \<noteq> buildInfoDesc"
  using assms
  by (auto simp: globalEntry_def zoneEntry_def buildInfoDesc_def makeDescPair_def NewDesc_def
      firstDynamicDesc_def)

lemma good_globalStatsRecord:
  assumes "good lib base st"
  shows "good lib base (globalStatsRecord lib t d st)"
proof -
  obtain g ch where st: "st = (g, ch)" by (cases st)
  show ?thesis
  proof (cases "(t = CtlTypeData \<or> t = CtlTypeExtra) \<and> Item d \<noteq> [] \<and> Data d \<noteq> []")
    case False
    with assms st show ?thesis by (auto simp: globalStatsRecord_def)
  next
    case True
    show ?thesis
    proof (cases "ParseFloat lib (Data d)")
      case None
      with True assms st show ?thesis by (simp add: globalStatsRecord_def)
    next
      case (Some v)
      obtain p g' where p: "getGlobalStatsDescriptor lib (Item d) g = (p, g')"
        by (cases "getGlobalStatsDescriptor lib (Item d) g")
      have ok: "registryOK lib g" and cl: "clean base ch"
        using assms st by (simp_all add: good_def)
      note E = getGlobal_entry[OF ok p]
      from E(2) obtain i where i: "firstDynamicDesc \<le> i" "p = globalEntry lib i (Item d)" by blast
      have "clean base (sendMetrics ch p v [Section d, ID d])"
        using cl dynamic_not_buildInfo(1,2)[OF i(1)] unfolding i(2) by (rule clean_sendMetrics)
      with E(3) True Some p st show ?thesis
        by (simp add: globalStatsRecord_def good_def)
    qed
  qed
qed

lemma good_zoneStatsRecord:
  assumes "good lib base st"
  shows "good lib base (zoneStatsRecord lib t d st)"
proof -
  obtain g ch where st: "st = (g, ch)" by (cases st)
  show ?thesis
  proof (cases "(t = CtlTypeData \<or> t = CtlTypeExtra) \<and> Zone d \<noteq> [] \<and> Item d \<noteq> [] \<and> Data d \<noteq> []")
    case False
    with assms st show ?thesis by (auto simp: zoneStatsRecord_def)
  next
    case True
    show ?thesis
    proof (cases "ParseFloat lib (Data d)")
      case None
      with True assms st show ?thesis by (simp add: zoneStatsRecord_def)
    next
      case (Some v)
      obtain p g' where p: "getZoneStatsDescriptor lib (Item d) g = (p, g')"
        by (cases "getZoneStatsDescriptor lib (Item d) g")
      have ok: "registryOK lib g" and cl: "clean base ch"
        using assms st by (simp_all add: good_def)
      note E = getZone_entry[OF ok p]
      from E(2) obtain i where i: "firstDynamicDesc \<le> i" "p = zoneEntry lib i (Item d)" by blast
      have "clean base (sendMetrics ch p v [Zone d, Section d, ID d])"
        using cl dynamic_not_buildInfo(3,4)[OF i(1)] unfolding i(2) by (rule clean_sendMetrics)
      with E(3) True Some p st show ?thesis
        by (simp add: zoneStatsRecord_def good_def)
    qed
  qed
qed

lemma clean_zoneStatusRecord:
  assumes "clean base (snd (snd st))"
  shows "clean base (snd (snd (zoneStatusRecord lib c t d st)))"
proof -
  obtain cz idx ch where st: "st = (cz, idx, ch)" by (cases st)
  have cl: "clean base ch" using assms st by simp
  have s: "clean base (sendMetrics ch zoneSerialDesc v [cz])" for v
    using cl static_not_buildInfo(3,4) by (rule clean_sendMetrics)
  have r: "clean base (sendMetrics ch' zoneStatusRefreshDesc v [cz])" if "clean base ch'" for v ch'
    using that static_not_buildInfo(13,14) by (rule clean_sendMetrics)
  have e: "clean base (sendMetrics ch' zoneStatusExpirationDesc v [cz])" if "clean base ch'" for v ch'
    using that static_not_buildInfo(11,12) by (rule clean_sendMetrics)
  show ?thesis
    unfolding st zoneStatusRecord_def
    using cl s r e by (auto simp: Let_def split: option.splits)
qed

lemma clean_zoneTimerRecord:
  assumes "clean base ch"
  shows "clean base (zoneTimerRecord lib t d ch)"
proof -
  have s: "clean base (sendMetrics (sendMetrics (sendMetrics ch zoneRefreshDesc v1 l1)
              zoneRetryDesc v2 l2) zoneExpirationDesc v3 l3)" for v1 v2 v3 l1 l2 l3
    by (intro clean_sendMetrics assms static_not_buildInfo)
  show ?thesis
    unfolding zoneTimerRecord_def using assms s
    by (auto simp: Let_def split: option.splits)
qed

lemma clean_zoneTimerLoop:
  assumes "clean base ch"
  shows "clean base (snd (snd (zoneTimerLoop lib ctl k ch)))"
  using assms
proof (induction "maxResponses - k" arbitrary: k ch)
  case 0
  then show ?case by (simp add: zoneTimerLoop_stop)
next
  case (Suc n)
  then have k: "k < maxResponses" and n: "n = maxResponses - (k + 1)"
    by simp_all
  show ?case
  proof (cases "responses ctl k")
    case (Inl err)
    with k Suc.prems show ?thesis by (simp add: zoneTimerLoop_Inl)
  next
    case (Inr r)
    obtain t d where r: "responses ctl k = Inr (t, d)" using Inr by (cases r) simp
    show ?thesis
    proof (cases "t = CtlTypeBlock \<or> t = CtlTypeEnd")
      case True
      with k r Suc.prems show ?thesis by (simp add: zoneTimerLoop_end)
    next
      case False
      then show ?thesis
        using Suc.hyps(1)[OF n clean_zoneTimerRecord[OF Suc.prems]] k r
        by (simp add: zoneTimerLoop_step)
    qed
  qed
qed


lemma good_collectGlobalStats:
  assumes "good lib base st"
  shows "good lib base (snd (collectGlobalStats fuel lib c ctl st))"
proof (cases "sendResult ctl ''stats'' None")
  case None
  have "good lib base (snd (receiveLoop fuel (globalStatsRecord lib) ctl 0 st))"
    using assms by (rule receiveLoop_invariant) (rule good_globalStatsRecord)
  with None show ?thesis by (simp add: collectGlobalStats_def)
next
  case (Some e)
  with assms show ?thesis by (simp add: collectGlobalStats_def)
qed

lemma good_collectZoneStatistics:
  assumes "good lib base st"
  shows "good lib base (snd (collectZoneStatistics fuel lib c ctl st))"
proof (cases "sendResult ctl ''zone-stats'' None")
  case None
  have "good lib base (snd (receiveLoop fuel (zoneStatsRecord lib) ctl 0 st))"
    using assms by (rule receiveLoop_invariant) (rule good_zoneStatsRecord)
  with None show ?thesis by (simp add: collectZoneStatistics_def)
next
  case (Some e)
  with assms show ?thesis by (simp add: collectZoneStatistics_def)
qed

lemma clean_collectZoneStatusInfo:
  assumes "clean base ch"
  shows "clean base (snd (collectZoneStatusInfo fuel lib c ctl ch))"
proof (cases "sendResult ctl ''zone-status'' None")
  case None
  have "clean base (snd (snd (snd (receiveLoop fuel (zoneStatusRecord lib c) ctl 0 ([], 0, ch)))))"
    by (rule receiveLoop_invariant[where P = "\<lambda>st. clean base (snd (snd st))"])
      (simp_all add: assms clean_zoneStatusRecord)
  with None show ?thesis by (simp add: collectZoneStatusInfo_def split_beta)
next
  case (Some e)
  with assms show ?thesis by (simp add: collectZoneStatusInfo_def)
qed

lemma clean_collectZoneTimerInfo:
  assumes "clean base ch"
  shows "clean base (snd (collectZoneTimerInfo lib c ctl ch))"
  using assms clean_zoneTimerLoop[OF assms, of lib ctl 0]
  by (simp add: collectZoneTimerInfo_def split_beta split: option.splits)

lemma good_collectTimersPart:
  assumes "good lib base st"
  shows "good lib base (snd (collectTimersPart lib c env k st))"
proof -
  obtain g ch where st: "st = (g, ch)" by (cases st)
  have "clean base (snd (collectZoneTimerInfo lib c ctl ch))" for ctl
    using assms st by (intro clean_collectZoneTimerInfo) (simp add: good_def)
  then show ?thesis
    using assms st by (auto simp: collectTimersPart_def good_def split_beta split: option.splits)
qed

lemma good_collectZoneStatsPart:
  assumes "good lib base st"
  shows "good lib base (snd (collectZoneStatsPart fuel lib c env k st))"
proof (cases "collectZoneStats c")
  case False
  then show ?thesis
    using good_collectTimersPart[OF assms] by (simp add: collectZoneStatsPart_def)
next
  case True
  show ?thesis
  proof (cases "openSession env c k")
    case None
    with True assms show ?thesis by (simp add: collectZoneStatsPart_def)
  next
    case (Some ctl)
    obtain r st' where r: "collectZoneStatistics fuel lib c ctl st = (r, st')"
      by (cases "collectZoneStatistics fuel lib c ctl st")
    have g: "good lib base st'"
      using good_collectZoneStatistics[OF assms, of fuel c ctl] r by simp
    show ?thesis
      using True Some r g good_collectTimersPart[OF g]
      by (cases r) (simp_all add: collectZoneStatsPart_def)
  qed
qed

lemma good_collectZoneStatusPart:
  assumes "good lib base st"
  shows "good lib base (snd (collectZoneStatusPart fuel lib c env k st))"
proof -
  obtain g ch where st: "st = (g, ch)" by (cases st)
  show ?thesis
  proof (cases "openSession env c k")
    case None
    with assms st show ?thesis by (simp add: collectZoneStatusPart_def)
  next
    case (Some ctl)
    show ?thesis
    proof (cases "collectZoneStatus c \<or> collectZoneSerial c")
      case False
      then show ?thesis
        using Some st good_collectZoneStatsPart[OF assms]
        by (simp add: collectZoneStatusPart_def)
    next
      case True
      obtain r ch' where r: "collectZoneStatusInfo fuel lib c ctl ch = (r, ch')"
        by (cases "collectZoneStatusInfo fuel lib c ctl ch")
      have "clean base ch'"
        using clean_collectZoneStatusInfo[of base ch fuel lib c ctl] assms st r
        by (simp add: good_def)
      then have g: "good lib base (g, ch')"
        using assms st by (simp add: good_def)
      show ?thesis
        using True Some st r g good_collectZoneStatsPart[OF g]
        by (cases r) (simp_all add: collectZoneStatusPart_def)
    qed
  qed
qed

lemma clean_memUsage:
  assumes "clean base ch"
  shows "clean base (foldl (\<lambda>ch (pid, usage).
           sendMetrics ch memoryUsageDesc (f64_of_int (int usage)) [pid]) ch ms)"
  using assms
proof (induction ms arbitrary: ch)
  case Nil
  then show ?case by simp
next
  case (Cons m ms)
  obtain pid usage where m: "m = (pid, usage)" by (cases m)
  have "clean base (sendMetrics ch memoryUsageDesc (f64_of_int (int usage)) [pid])"
    using Cons.prems static_not_buildInfo(1,2) by (rule clean_sendMetrics)
  from Cons.IH[OF this] show ?case by (simp add: m)
qed

lemma good_Collect:
  assumes "registryOK lib g"
  shows "good lib (ch @ [buildInfoMetric c env]) (snd (Collect fuel lib c env (g, ch)))"
proof (cases "openSession env c 0")
  case None
  with assms show ?thesis by (simp add: Collect_def good_def clean_refl)
next
  case (Some ctl)
  let ?base = "ch @ [buildInfoMetric c env]"
  define ch1 where "ch1 = (if collectMemInfo c
                           then foldl (\<lambda>ch (pid, usage).
                                  sendMetrics ch memoryUsageDesc (f64_of_int (int usage)) [pid])
                                  ?base (memUsage env)
                           else ?base)"
  have "clean ?base ch1"
    unfolding ch1_def using clean_memUsage[OF clean_refl] by (simp add: clean_refl)
  then have g1: "good lib ?base (g, ch1)"
    using assms by (simp add: good_def)
  show ?thesis
  proof (cases "collectStats c")
    case False
    then show ?thesis
      using Some good_collectZoneStatusPart[OF g1]
      by (simp add: Collect_def Let_def ch1_def[symmetric])
  next
    case True
    obtain r st' where r: "collectGlobalStats fuel lib c ctl (g, ch1) = (r, st')"
      by (cases "collectGlobalStats fuel lib c ctl (g, ch1)")
    have g2: "good lib ?base st'"
      using good_collectGlobalStats[OF g1, of fuel c ctl] r by simp
    show ?thesis
      using True Some r g2 good_collectZoneStatusPart[OF g2]
      by (cases r) (simp_all add: Collect_def Let_def ch1_def[symmetric])
  qed
qed


lemma receiveLoop_returns:
  assumes "\<not> continues (responses ctl (i + n))" "n < fuel"
  shows "fst (receiveLoop fuel body ctl i st) \<noteq> Running"
  using assms
proof (induction n arbitrary: i st fuel)
  case 0
  then obtain f where "fuel = Suc f" by (cases fuel) auto
  with 0 show ?case
    by (auto simp: continues_def split: sum.splits prod.splits)
next
  case (Suc n)
  then obtain f where f: "fuel = Suc f" "n < f" by (cases fuel) auto
  have e: "\<not> continues (responses ctl (Suc i + n))"
    using Suc.prems(1) by simp
  show ?case
    using Suc.IH[OF e f(2)] unfolding f(1)
    by (auto split: sum.splits prod.splits)
qed

lemma settles_returns:
  assumes "settles ctl fuel"
  shows "fst (receiveLoop fuel body ctl 0 st) \<noteq> Running"
proof -
  from assms obtain n where "n < fuel" "\<not> continues (responses ctl (0 + n))"
    unfolding settles_def by auto
  then show ?thesis by (intro receiveLoop_returns[where n = n])
qed

lemma collectGlobalStats_returns:
  "settles ctl fuel \<Longrightarrow> fst (collectGlobalStats fuel lib c ctl st) \<noteq> Running"
  using settles_returns[of ctl fuel "globalStatsRecord lib" st]
  by (simp add: collectGlobalStats_def split: option.splits)

lemma collectZoneStatistics_returns:
  "settles ctl fuel \<Longrightarrow> fst (collectZoneStatistics fuel lib c ctl st) \<noteq> Running"
  using settles_returns[of ctl fuel "zoneStatsRecord lib" st]
  by (simp add: collectZoneStatistics_def split: option.splits)

lemma collectZoneStatusInfo_returns:
  "settles ctl fuel \<Longrightarrow> fst (collectZoneStatusInfo fuel lib c ctl ch) \<noteq> Running"
  using settles_returns[of ctl fuel "zoneStatusRecord lib c" "([], 0, ch)"]
  by (simp add: collectZoneStatusInfo_def split_beta split: option.splits)

lemma openSession_newCtl: "openSession env c k = Some ctl \<Longrightarrow> newCtl env k = Some ctl"
  by (auto simp: openSession_def split: option.splits)

lemma collectTimersPart_returns: "fst (collectTimersPart lib c env k st)"
  by (simp add: collectTimersPart_def split_beta split: option.splits)

lemma collectZoneStatsPart_returns:
  assumes "\<forall>k ctl. newCtl env k = Some ctl \<longrightarrow> settles ctl fuel"
  shows "fst (collectZoneStatsPart fuel lib c env k st)"
proof (cases "collectZoneStats c")
  case False
  then show ?thesis by (simp add: collectZoneStatsPart_def collectTimersPart_returns)
next
  case True
  show ?thesis
  proof (cases "openSession env c k")
    case None
    with True show ?thesis by (simp add: collectZoneStatsPart_def)
  next
    case (Some ctl)
    then have "settles ctl fuel" using assms openSession_newCtl by blast
    from collectZoneStatistics_returns[OF this, of lib c st]
    obtain e st' where "collectZoneStatistics fuel lib c ctl st = (Returned e, st')"
      by (cases "collectZoneStatistics fuel lib c ctl st"; cases "fst (collectZoneStatistics fuel lib c ctl st)") auto
    with True Some show ?thesis
      by (simp add: collectZoneStatsPart_def collectTimersPart_returns)
  qed
qed

lemma collectZoneStatusPart_returns:
  assumes "\<forall>k ctl. newCtl env k = Some ctl \<longrightarrow> settles ctl fuel"
  shows "fst (collectZoneStatusPart fuel lib c env k st)"
proof -
  obtain g ch where st: "st = (g, ch)" by (cases st)
  show ?thesis
  proof (cases "openSession env c k")
    case None
    with st show ?thesis by (simp add: collectZoneStatusPart_def)
  next
    case (Some ctl)
    then have "settles ctl fuel" using assms openSession_newCtl by blast
    from collectZoneStatusInfo_returns[OF this, of lib c ch]
    obtain e ch' where "collectZoneStatusInfo fuel lib c ctl ch = (Returned e, ch')"
      by (cases "collectZoneStatusInfo fuel lib c ctl ch"; cases "fst (collectZoneStatusInfo fuel lib c ctl ch)") auto
    with Some st show ?thesis
      by (simp add: collectZoneStatusPart_def collectZoneStatsPart_returns[OF assms])
  qed
qed

lemma Collect_returns:
  assumes "\<forall>k ctl. newCtl env k = Some ctl \<longrightarrow> settles ctl fuel"
  shows "fst (Collect fuel lib c env (g, ch))"
proof (cases "openSession env c 0")
  case None
  then show ?thesis by (simp add: Collect_def)
next
  case (Some ctl)
  then have s: "settles ctl fuel" using assms openSession_newCtl by blast
  have "fst (case collectGlobalStats fuel lib c ctl st of
               (Running, st') \<Rightarrow> (False, st')
             | (Returned err, st') \<Rightarrow> collectZoneStatusPart fuel lib c env 1 st')" for st
  proof -
    from collectGlobalStats_returns[OF s, of lib c st]
    obtain e st' where "collectGlobalStats fuel lib c ctl st = (Returned e, st')"
      by (cases "collectGlobalStats fuel lib c ctl st"; cases "fst (collectGlobalStats fuel lib c ctl st)") auto
    then show ?thesis by (simp add: collectZoneStatusPart_returns[OF assms])
  qed
  with Some show ?thesis
    by (simp add: Collect_def Let_def collectZoneStatusPart_returns[OF assms])
qed

lemma filter_none:
  "list_all (\<lambda>m. \<not> P m) xs \<Longrightarrow> filter P xs = []"
  by (induction xs) simp_all

lemma openSession_None_iff:
  "openSession env c k = None \<longleftrightarrow>
     newCtl env k = None \<or> (\<exists>ctl err. newCtl env k = Some ctl \<and> connect ctl (sockPath c) = Some err)"
  by (auto simp: openSession_def split: option.splits)

lemma settles_scripted_empty: "settles (scripted s []) (Suc n)"
  unfolding settles_def by (intro exI[of _ 0]) (simp add: scripted_def continues_def)

text \<open>
  C7. Whatever the environment and however far the run gets, the first thing \<^verbatim>\<open>Collect\<close>
  sends is the build-info observation: the descriptor \<^verbatim>\<open>knot_build_info\<close>, a gauge of
  value 1, labelled with the version, the build time, the commit, the Go version, the
  version of libknot and the platform. Nothing it sends later has the build-info
  descriptor, so the call sends exactly one build-info observation. When the control
  object cannot be allocated, or cannot be connected, \<^verbatim>\<open>Collect\<close> returns with this
  observation alone. \<^verbatim>\<open>Collect\<close> has no result to carry an error; it returns as soon as
  every session it opens delivers an error, BLOCK or END within the fuel.
\<close>

theorem Collect_build_info:
  assumes "registryOK lib g"
  shows "(\<exists>rest. snd (snd (Collect fuel lib c env (g, ch))) =
                  ch @ \<lparr> desc = buildInfoDesc, valueType = GaugeValue, val = Fin 1,
                         labelValues = [Version env, BuildTime env, GitCommit env,
                                        GoVersion env, libknotVersion c, platform env] \<rparr> # rest \<and>
                list_all (\<lambda>m. desc m \<noteq> buildInfoDesc) rest) \<and>
         length (filter (\<lambda>m. desc m = buildInfoDesc)
                   (drop (length ch) (snd (snd (Collect fuel lib c env (g, ch)))))) = 1 \<and>
         fqName buildInfoDesc = ''knot_build_info'' \<and>
         variableLabels buildInfoDesc =
           [''version'', ''build_time'', ''git_commit'', ''go_version'', ''libknot_version'',
            ''platform''] \<and>
         (newCtl env 0 = None \<longrightarrow>
            Collect fuel lib c env (g, ch) =
              (True, g, ch @ [\<lparr> desc = buildInfoDesc, valueType = GaugeValue, val = Fin 1,
                                labelValues = [Version env, BuildTime env, GitCommit env,
                                               GoVersion env, libknotVersion c, platform env] \<rparr>])) \<and>
         (\<forall>ctl err. newCtl env 0 = Some ctl \<longrightarrow> connect ctl (sockPath c) = Some err \<longrightarrow>
            Collect fuel lib c env (g, ch) =
              (True, g, ch @ [\<lparr> desc = buildInfoDesc, valueType = GaugeValue, val = Fin 1,
                                labelValues = [Version env, BuildTime env, GitCommit env,
                                               GoVersion env, libknotVersion c, platform env] \<rparr>])) \<and>
         ((\<forall>k ctl. newCtl env k = Some ctl \<longrightarrow> settles ctl fuel) \<longrightarrow>
            fst (Collect fuel lib c env (g, ch)))"
proof -
  let ?M = "\<lparr> desc = buildInfoDesc, valueType = GaugeValue, val = Fin 1,
              labelValues = [Version env, BuildTime env, GitCommit env,
                             GoVersion env, libknotVersion c, platform env] \<rparr>"
  let ?out = "snd (snd (Collect fuel lib c env (g, ch)))"
  have M: "buildInfoMetric c env = ?M" by (simp add: buildInfoMetric_def)
  from good_Collect[OF assms, of ch c env fuel]
  obtain rest where rest: "?out = (ch @ [?M]) @ rest" "list_all (\<lambda>m. desc m \<noteq> buildInfoDesc) rest"
    unfolding good_def clean_def M by auto
  have first: "\<exists>rest. ?out = ch @ ?M # rest \<and> list_all (\<lambda>m. desc m \<noteq> buildInfoDesc) rest"
    using rest by auto
  have "filter (\<lambda>m. desc m = buildInfoDesc) rest = []"
    using rest(2) by (intro filter_none) simp
  then have one: "length (filter (\<lambda>m. desc m = buildInfoDesc) (drop (length ch) ?out)) = 1"
    unfolding rest(1) by simp
  have name: "fqName buildInfoDesc = ''knot_build_info''"
    by (simp add: buildInfoDesc_def NewDesc_def)
  have labels: "variableLabels buildInfoDesc =
           [''version'', ''build_time'', ''git_commit'', ''go_version'', ''libknot_version'',
            ''platform'']"
    by (simp add: buildInfoDesc_def NewDesc_def)
  have closed: "Collect fuel lib c env (g, ch) = (True, g, ch @ [?M])"
    if "openSession env c 0 = None"
    using that by (simp add: Collect_def M)
  have alloc: "newCtl env 0 = None \<longrightarrow> Collect fuel lib c env (g, ch) = (True, g, ch @ [?M])"
    using closed by (simp add: openSession_None_iff)
  have conn: "\<forall>ctl err. newCtl env 0 = Some ctl \<longrightarrow> connect ctl (sockPath c) = Some err \<longrightarrow>
            Collect fuel lib c env (g, ch) = (True, g, ch @ [?M])"
    using closed by (simp add: openSession_None_iff)
  have ret: "(\<forall>k ctl. newCtl env k = Some ctl \<longrightarrow> settles ctl fuel) \<longrightarrow>
            fst (Collect fuel lib c env (g, ch))"
    using Collect_returns by blast
  from first one name labels alloc conn ret show ?thesis
    by (intro conjI)
qed

text \<open>The witness: a server that refuses the connection, a control object that cannot
  be allocated, and a server on which every command fails, so that every phase returns
  an error and the memory metrics are all that follows the build-info observation.\<close>

theorem Collect_build_info_witness:
  "registryOK asciiLib initialRegistries \<and>
   Collect 5 asciiLib allEnabled unreachable (initialRegistries, []) =
     (True, initialRegistries,
      [\<lparr> desc = buildInfoDesc, valueType = GaugeValue, val = Fin 1,
         labelValues = [''dev'', ''unknown'', ''unknown'', ''go1.21'', ''3.3.0'', ''linux/amd64''] \<rparr>]) \<and>
   Collect 5 asciiLib allEnabled unallocated (initialRegistries, []) =
     (True, initialRegistries,
      [\<lparr> desc = buildInfoDesc, valueType = GaugeValue, val = Fin 1,
         labelValues = [''dev'', ''unknown'', ''unknown'', ''go1.21'', ''3.3.0'', ''linux/amd64''] \<rparr>]) \<and>
   Collect 5 asciiLib allEnabled broken (initialRegistries, []) =
     (True, initialRegistries,
      [\<lparr> desc = buildInfoDesc, valueType = GaugeValue, val = Fin 1,
         labelValues = [''dev'', ''unknown'', ''unknown'', ''go1.21'', ''3.3.0'', ''linux/amd64''] \<rparr>,
       \<lparr> desc = fst memoryUsageDesc, valueType = GaugeValue, val = Fin 1048576,
         labelValues = [''4242''] \<rparr>,
       \<lparr> desc = snd memoryUsageDesc, valueType = CounterValue, val = Fin 1048576,
         labelValues = [''4242''] \<rparr>]) \<and>
   length (filter (\<lambda>m. desc m = buildInfoDesc)
             (snd (snd (Collect 5 asciiLib allEnabled broken (initialRegistries, []))))) = 1"
proof -
  have s: "\<forall>k ctl. newCtl broken k = Some ctl \<longrightarrow> settles ctl 5"
    using settles_scripted_empty[of _ 4] by (auto simp: broken_def unreachable_def)
  have f: "f64_of_int 1048576 = Fin 1048576"
    by (rule f64_of_int_exact) simp
  have b: "Collect 5 asciiLib allEnabled broken (initialRegistries, []) =
     (True, initialRegistries,
      [\<lparr> desc = buildInfoDesc, valueType = GaugeValue, val = Fin 1,
         labelValues = [''dev'', ''unknown'', ''unknown'', ''go1.21'', ''3.3.0'', ''linux/amd64''] \<rparr>,
       \<lparr> desc = fst memoryUsageDesc, valueType = GaugeValue, val = Fin 1048576,
         labelValues = [''4242''] \<rparr>,
       \<lparr> desc = snd memoryUsageDesc, valueType = CounterValue, val = Fin 1048576,
         labelValues = [''4242''] \<rparr>])"
    by (simp add: Collect_def collectZoneStatusPart_def collectZoneStatsPart_def
        collectTimersPart_def collectGlobalStats_def collectZoneStatusInfo_def
        collectZoneStatistics_def collectZoneTimerInfo_def openSession_def broken_def
        unreachable_def scripted_def allEnabled_def buildInfoMetric_def sendMetrics_def f)
  show ?thesis
    using Collect_build_info[OF registryOK_initial, where lib = asciiLib and fuel = 5
        and c = allEnabled and env = unreachable and ch = "[]"]
      Collect_build_info[OF registryOK_initial, where lib = asciiLib and fuel = 5
        and c = allEnabled and env = unallocated and ch = "[]"]
      Collect_build_info[OF registryOK_initial, where lib = asciiLib and fuel = 5
        and c = allEnabled and env = broken and ch = "[]"]
      registryOK_initial[of asciiLib] s b
    by (simp add: unreachable_def unallocated_def scripted_def allEnabled_def)
qed

end
